(* ===== verification/Prelude.thy ===== *)
theory Prelude
  imports Main "HOL-Library.Word"
begin

text \<open>
  Shared vocabulary of the development: machine bytes, bounded byte buffers as the C
  code sees them (a read or a write outside the allocation is a fault, never an
  unspecified value), C strings and the part of \<^verbatim>\<open>printf\<close> the daemons use, and the
  generic list lemmas the component theories build on.
\<close>

unbundle bit_operations_syntax

named_theorems mrp_defs \<open>definitions unfolded by the component proofs\<close>
named_theorems frame_simps \<open>what an operation leaves unchanged\<close>
named_theorems inv_intros \<open>an operation keeps the invariant of its component\<close>

type_synonym byte = "8 word"
type_synonym u16 = "16 word"
type_synonym u32 = "32 word"
type_synonym u64 = "64 word"
type_synonym bytes = "byte list"

section \<open>Control flow of functions with a common exit label\<close>

text \<open>
  The receive and transmit functions of the daemons are loops that leave through a
  \<^verbatim>\<open>goto\<close> to a clean-up label. \<open>Fault\<close> is the value of an access outside the buffer:
  undefined behaviour in C, and the thing the memory safety theorems exclude.
\<close>

datatype 'a flow = Next 'a | Goto | Fault

section \<open>Byte buffers\<close>

definition rd :: "bytes \<Rightarrow> nat \<Rightarrow> byte option" where
  "rd buf i = (if i < length buf then Some (buf ! i) else None)"

definition wr :: "bytes \<Rightarrow> nat \<Rightarrow> byte \<Rightarrow> bytes option" where
  "wr buf i v = (if i < length buf then Some (buf[i := v]) else None)"

fun wr_bytes :: "bytes \<Rightarrow> nat \<Rightarrow> bytes \<Rightarrow> bytes option" where
  "wr_bytes buf i [] = Some buf"
| "wr_bytes buf i (v # vs) =
     (case wr buf i v of None \<Rightarrow> None | Some buf' \<Rightarrow> wr_bytes buf' (Suc i) vs)"

fun rd_bytes :: "bytes \<Rightarrow> nat \<Rightarrow> nat \<Rightarrow> bytes option" where
  "rd_bytes buf i 0 = Some []"
| "rd_bytes buf i (Suc n) =
     (case rd buf i of
        None \<Rightarrow> None
      | Some v \<Rightarrow> (case rd_bytes buf (Suc i) n of None \<Rightarrow> None | Some vs \<Rightarrow> Some (v # vs)))"

text \<open>\<^verbatim>\<open>ntohs\<close> of the two bytes at an offset, and the bytes \<^verbatim>\<open>htons\<close> stores.\<close>

definition be16 :: "byte \<Rightarrow> byte \<Rightarrow> u16" where
  "be16 hi lo = push_bit 8 (ucast hi) OR ucast lo"

definition hi8 :: "u16 \<Rightarrow> byte" where
  "hi8 v = ucast (drop_bit 8 v)"

definition lo8 :: "u16 \<Rightarrow> byte" where
  "lo8 v = ucast v"

definition rd16 :: "bytes \<Rightarrow> nat \<Rightarrow> u16 option" where
  "rd16 buf i =
     (case rd buf i of
        None \<Rightarrow> None
      | Some hi \<Rightarrow> (case rd buf (Suc i) of None \<Rightarrow> None | Some lo \<Rightarrow> Some (be16 hi lo)))"

section \<open>C strings and formatted output\<close>

text \<open>\<^verbatim>\<open>snprintf(buf, n, ...)\<close> keeps at most \<open>n - 1\<close> characters of the text it formats.\<close>

definition snprintf :: "nat \<Rightarrow> string \<Rightarrow> string" where
  "snprintf n s = take (n - 1) s"

definition hex_digit :: "nat \<Rightarrow> char" where
  "hex_digit d = ''0123456789abcdef'' ! (d mod 16)"

text \<open>\<^verbatim>\<open>%02x\<close> of a byte and \<^verbatim>\<open>%04x\<close> of a 16 bit value.\<close>

definition fmt_02x :: "byte \<Rightarrow> string" where
  "fmt_02x b = [hex_digit (unat b div 16), hex_digit (unat b)]"

definition fmt_04x :: "u16 \<Rightarrow> string" where
  "fmt_04x v = fmt_02x (hi8 v) @ fmt_02x (lo8 v)"

definition fmt_hex_bytes :: "bytes \<Rightarrow> string" where
  "fmt_hex_bytes bs = concat (map fmt_02x bs)"

text \<open>\<^verbatim>\<open>%d\<close> of a non-negative value.\<close>

fun fmt_u :: "nat \<Rightarrow> string" where
  "fmt_u n = (if n < 10 then [''0123456789'' ! n] else fmt_u (n div 10) @ [''0123456789'' ! (n mod 10)])"

declare fmt_u.simps [simp del]

section \<open>Lists as linked lists: a position stands for a node pointer\<close>

definition insert_at :: "nat \<Rightarrow> 'a \<Rightarrow> 'a list \<Rightarrow> 'a list" where
  "insert_at i x xs = take i xs @ x # drop i xs"

definition remove_at :: "nat \<Rightarrow> 'a list \<Rightarrow> 'a list" where
  "remove_at i xs = take i xs @ drop (Suc i) xs"

text \<open>The first node satisfying a predicate, as the lookup loops return it.\<close>

fun find_pos :: "('a \<Rightarrow> bool) \<Rightarrow> 'a list \<Rightarrow> nat option" where
  "find_pos P [] = None"
| "find_pos P (x # xs) = (if P x then Some 0 else map_option Suc (find_pos P xs))"

section \<open>Lemmas on buffers\<close>

lemma rd_Some_iff [simp]: "rd buf i = Some v \<longleftrightarrow> i < length buf \<and> v = buf ! i"
  by (auto simp: rd_def)

lemma rd_None_iff [simp]: "rd buf i = None \<longleftrightarrow> length buf \<le> i"
  by (auto simp: rd_def)

lemma wr_None_iff [simp]: "wr buf i v = None \<longleftrightarrow> length buf \<le> i"
  by (auto simp: wr_def)

lemma wr_Some_iff [simp]: "wr buf i v = Some buf' \<longleftrightarrow> i < length buf \<and> buf' = buf[i := v]"
  by (auto simp: wr_def)

lemma wr_bytes_None_iff:
  "wr_bytes buf i vs = None \<longleftrightarrow> vs \<noteq> [] \<and> length buf < i + length vs"
  by (induction buf i vs rule: wr_bytes.induct) (auto split: option.splits)

lemma wr_bytes_length: "wr_bytes buf i vs = Some buf' \<Longrightarrow> length buf' = length buf"
  by (induction buf i vs rule: wr_bytes.induct) (auto split: option.splits)

lemma wr_bytes_nth:
  "wr_bytes buf i vs = Some buf' \<Longrightarrow>
   buf' ! k = (if i \<le> k \<and> k < i + length vs then vs ! (k - i) else buf ! k)"
proof (induction buf i vs arbitrary: buf' rule: wr_bytes.induct)
  case (1 buf i)
  then show ?case by auto
next
  case (2 buf i v vs)
  then obtain b where b: "i < length buf" "b = buf[i := v]" "wr_bytes b (Suc i) vs = Some buf'"
    by (auto split: option.splits)
  then have "buf' ! k = (if Suc i \<le> k \<and> k < Suc i + length vs then vs ! (k - Suc i) else b ! k)"
    using "2.IH" by (auto split: option.splits)
  with b show ?case
    by (cases "k = i") (auto simp: nth_Cons' Suc_diff_le)
qed

lemma wr_bytes_Some:
  "i + length vs \<le> length buf \<Longrightarrow>
   wr_bytes buf i vs = Some (take i buf @ vs @ drop (i + length vs) buf)"
proof -
  assume len: "i + length vs \<le> length buf"
  then obtain buf' where w: "wr_bytes buf i vs = Some buf'"
    using wr_bytes_None_iff [of buf i vs] by (cases "wr_bytes buf i vs") auto
  have "buf' = take i buf @ vs @ drop (i + length vs) buf"
    using len wr_bytes_length [OF w] wr_bytes_nth [OF w]
    by (intro nth_equalityI) (auto simp: nth_append)
  with w show ?thesis by simp
qed

lemma wr_bytes_append:
  "wr_bytes buf i (xs @ ys) =
     (case wr_bytes buf i xs of None \<Rightarrow> None | Some b \<Rightarrow> wr_bytes b (i + length xs) ys)"
  by (induction buf i xs rule: wr_bytes.induct) (auto split: option.splits)

text \<open>A header written after the contents it precedes.\<close>

lemma wr_bytes_header:
  assumes "wr_bytes buf (i + length hs) xs = Some b" and "wr_bytes b i hs = Some b'"
  shows "wr_bytes buf i (hs @ xs) = Some b'"
proof (cases "hs @ xs = []")
  case False
  have len: "length b = length buf" "length b' = length buf"
    using assms wr_bytes_length by (metis, metis)
  have "xs = [] \<or> i + length hs + length xs \<le> length buf"
    using assms(1) by (metis wr_bytes_None_iff not_le option.distinct(1))
  moreover have "hs = [] \<or> i + length hs \<le> length buf"
    using assms(2) len(1) by (metis wr_bytes_None_iff not_le option.distinct(1))
  ultimately have fits: "i + length (hs @ xs) \<le> length buf"
    using False by (cases "xs = []") auto
  then obtain c where c: "wr_bytes buf i (hs @ xs) = Some c" using wr_bytes_Some by blast
  have "c = b'"
  proof (rule nth_equalityI)
    show "length c = length b'" using wr_bytes_length [OF c] len by simp
  next
    fix k assume "k < length c"
    show "c ! k = b' ! k"
      unfolding wr_bytes_nth [OF c, of k] wr_bytes_nth [OF assms(2), of k] wr_bytes_nth [OF assms(1), of k]
      by (auto simp: nth_append)
  qed
  then show ?thesis using c by simp
next
  case True
  then show ?thesis using assms by simp
qed

lemma rd_bytes_Some: "i + n \<le> length buf \<Longrightarrow> rd_bytes buf i n = Some (take n (drop i buf))"
proof (induction n arbitrary: i)
  case 0
  then show ?case by simp
next
  case (Suc n)
  then have "rd_bytes buf (Suc i) n = Some (take n (drop (Suc i) buf))" by simp
  moreover have "drop i buf = buf ! i # drop (Suc i) buf"
    using Suc.prems by (simp add: Cons_nth_drop_Suc)
  ultimately show ?case using Suc.prems by (simp add: rd_def)
qed

lemma rd_bytes_None: "rd_bytes buf i n = None \<Longrightarrow> length buf < i + n"
  using rd_bytes_Some [of i n buf] by (cases "i + n \<le> length buf") auto

lemma rd_bytes_length: "rd_bytes buf i n = Some vs \<Longrightarrow> length vs = n"
  by (induction n arbitrary: i vs) (auto split: option.splits)

lemma rd16_Some_iff: "rd16 buf i = Some v \<longleftrightarrow> Suc i < length buf \<and> v = be16 (buf ! i) (buf ! Suc i)"
  by (auto simp: rd16_def split: option.splits)

lemma rd16_None_iff: "rd16 buf i = None \<longleftrightarrow> length buf \<le> Suc i"
  by (auto simp: rd16_def split: option.splits)

section \<open>Lemmas on 16 bit values in network order\<close>

lemma unat_byte_less: "unat (b :: byte) < 256"
  using unsigned_less [of b, where 'a = nat] by simp

lemma unat_byte_of_nat: "n < 256 \<Longrightarrow> unat (word_of_nat n :: byte) = n"
  by (simp add: unat_of_nat)

lemma unat_u16_of_nat: "n < 65536 \<Longrightarrow> unat (word_of_nat n :: u16) = n"
  by (simp add: unat_of_nat)

lemma unat_u16_less: "unat (v :: u16) < 65536"
  using unsigned_less [of v, where 'a = nat] by simp

lemma be16_hi8_lo8 [simp]: "be16 (hi8 v) (lo8 v) = v"
  unfolding be16_def hi8_def lo8_def
  by (rule bit_word_eqI) (auto simp: bit_simps)

lemma hi8_be16 [simp]: "hi8 (be16 hi lo) = hi"
  unfolding be16_def hi8_def
  by (rule bit_word_eqI) (auto simp: bit_simps dest: bit_imp_le_length)

lemma lo8_be16 [simp]: "lo8 (be16 hi lo) = lo"
  unfolding be16_def lo8_def
  by (rule bit_word_eqI) (auto simp: bit_simps)

section \<open>Lemmas on positions\<close>

lemma length_insert_at [simp]: "i \<le> length xs \<Longrightarrow> length (insert_at i x xs) = Suc (length xs)"
  by (simp add: insert_at_def)

lemma set_insert_at [simp]: "i \<le> length xs \<Longrightarrow> set (insert_at i x xs) = insert x (set xs)"
  by (simp add: insert_at_def) (metis append_take_drop_id set_append)

lemma nth_insert_at [simp]: "i \<le> length xs \<Longrightarrow> insert_at i x xs ! i = x"
  by (simp add: insert_at_def nth_append)

lemma map_insert_at: "map f (insert_at i x xs) = insert_at i (f x) (map f xs)"
  by (simp add: insert_at_def take_map drop_map)

lemma insert_at_0 [simp]: "insert_at 0 x xs = x # xs"
  by (simp add: insert_at_def)

lemma insert_at_Suc [simp]: "insert_at (Suc i) x (y # xs) = y # insert_at i x xs"
  by (simp add: insert_at_def)

lemma map_remove_at: "map f (remove_at i xs) = remove_at i (map f xs)"
  by (simp add: remove_at_def take_map drop_map)

lemma remove_at_0 [simp]: "remove_at 0 (x # xs) = xs"
  by (simp add: remove_at_def)

lemma remove_at_Suc [simp]: "remove_at (Suc i) (x # xs) = x # remove_at i xs"
  by (simp add: remove_at_def)

lemma set_remove_at_subset: "set (remove_at i xs) \<subseteq> set xs"
  by (auto simp: remove_at_def dest: in_set_takeD in_set_dropD)

lemma sorted_wrt_remove_at: "sorted_wrt P xs \<Longrightarrow> sorted_wrt P (remove_at i xs)"
proof (induction xs arbitrary: i)
  case Nil
  then show ?case by (simp add: remove_at_def)
next
  case (Cons x xs)
  then show ?case
    using set_remove_at_subset [of _ xs] by (cases i) auto
qed

lemma find_pos_None: "find_pos P xs = None \<longleftrightarrow> (\<forall>x \<in> set xs. \<not> P x)"
  by (induction xs) auto

lemma find_pos_Some: "find_pos P xs = Some i \<Longrightarrow> i < length xs \<and> P (xs ! i)"
  by (induction xs arbitrary: i) (auto split: if_splits)

lemma find_pos_first: "find_pos P xs = Some i \<Longrightarrow> j < i \<Longrightarrow> \<not> P (xs ! j)"
proof (induction xs arbitrary: i j)
  case Nil
  then show ?case by simp
next
  case (Cons x xs)
  then show ?case by (cases j) (auto split: if_splits)
qed

lemma find_pos_map: "find_pos P (map f xs) = find_pos (P \<circ> f) xs"
  by (induction xs) auto

lemma length_fmt_02x [simp]: "length (fmt_02x b) = 2"
  by (simp add: fmt_02x_def)

lemma length_fmt_04x [simp]: "length (fmt_04x v) = 4"
  by (simp add: fmt_04x_def)

end
