(* ===== verification/Mrp_Os.thy ===== *)
theory Mrp_Os
  imports Prelude
begin

text \<open>
  What \<^verbatim>\<open>mrpd\<close> asks of the operating system. The kernel and the C allocator are not part
  of the repository, so their answers are a parameter: \<open>os\<close> maps the history of all calls
  made so far (latest first, the call being answered at its head) to the value the call
  returns. Nothing is assumed of it, unless a theorem says so. The globals of the
  daemon and the history are the record \<open>world\<close>.
\<close>

record sockaddr_in =
  sin_family :: u16
  sin_port :: u16
  sin_addr :: u32
  sin_zero :: bytes

datatype os_call =
    Timerfd_settime int nat nat   \<comment> \<open>descriptor, it_value and it_interval in ms\<close>
  | Random
  | Malloc nat
  | Uninit nat                     \<comment> \<open>the contents of an uninitialised variable\<close>
  | Send int bytes                \<comment> \<open>a frame on a protocol socket\<close>
  | Sendto int string nat sockaddr_in  \<comment> \<open>text, datagram length and client\<close>
  | Timerfd_create
  | Socket_packet u16             \<comment> \<open>a raw socket for an ethertype\<close>
  | Ioctl_hwaddr int
  | Hwaddr_byte int nat           \<comment> \<open>a byte the hardware address query stored\<close>
  | Ioctl_ifindex int
  | Bind_packet int u16
  | Bindtodevice int
  | Add_membership int bytes      \<comment> \<open>the multicast address\<close>
  | Socket_udp
  | Bind_udp int u16
  | Close int

type_synonym history = "os_call list"
type_synonym os = "history \<Rightarrow> int"

record world =
  trace :: history
  p2pmac :: int
  lva_next :: nat
  control_socket :: int
  periodic_timer :: int
  gc_timer :: int
  station_addr :: bytes
  crashed :: bool

text \<open>
  \<open>crashed\<close> records that a buffer was accessed outside its bounds: from there on the
  behaviour of the C program is undefined. The memory safety theorems show that it stays
  false.
\<close>

definition crash :: "world \<Rightarrow> world" where
  "crash w = w\<lparr>crashed := True\<rparr>"

text \<open>
  The globals as the program image and \<^verbatim>\<open>main\<close> leave them before initialisation.
\<close>

definition boot_world :: world where
  "boot_world =
     \<lparr>trace = [], p2pmac = 0, lva_next = 0, control_socket = -1, periodic_timer = -1,
      gc_timer = -1, station_addr = [0x00, 0x88, 0x77, 0x66, 0x55, 0x44], crashed = False\<rparr>"

definition call_os :: "os \<Rightarrow> os_call \<Rightarrow> world \<Rightarrow> int \<times> world" where
  "call_os env c w = (env (c # trace w), w\<lparr>trace := c # trace w\<rparr>)"

text \<open>\<^verbatim>\<open>malloc\<close> fails by returning the null pointer.\<close>

definition malloc :: "os \<Rightarrow> nat \<Rightarrow> world \<Rightarrow> bool \<times> world" where
  "malloc env n w = (case call_os env (Malloc n) w of (p, w') \<Rightarrow> (p \<noteq> 0, w'))"

section \<open>Timers (mrpd.c)\<close>

definition mrpd_timer_create :: "os \<Rightarrow> world \<Rightarrow> int \<times> world" where
  "mrpd_timer_create env w = call_os env Timerfd_create w"

definition mrpd_timer_close :: "os \<Rightarrow> int \<Rightarrow> world \<Rightarrow> world" where
  "mrpd_timer_close env t w = (if t \<noteq> -1 then snd (call_os env (Close t) w) else w)"

definition mrpd_timer_start_interval :: "os \<Rightarrow> int \<Rightarrow> nat \<Rightarrow> nat \<Rightarrow> world \<Rightarrow> int \<times> world" where
  "mrpd_timer_start_interval env timerfd value_ms interval_ms w =
     call_os env (Timerfd_settime timerfd value_ms interval_ms) w"

definition mrpd_timer_start :: "os \<Rightarrow> int \<Rightarrow> nat \<Rightarrow> world \<Rightarrow> int \<times> world" where
  "mrpd_timer_start env timerfd value_ms w = mrpd_timer_start_interval env timerfd value_ms 0 w"

definition mrpd_timer_stop :: "os \<Rightarrow> int \<Rightarrow> world \<Rightarrow> int \<times> world" where
  "mrpd_timer_stop env timerfd w = call_os env (Timerfd_settime timerfd 0 0) w"

definition gctimer_start :: "os \<Rightarrow> world \<Rightarrow> int \<times> world" where
  "gctimer_start env w = mrpd_timer_start env (gc_timer w) (30 * 1000) w"

definition mrp_periodictimer_start :: "os \<Rightarrow> world \<Rightarrow> int \<times> world" where
  "mrp_periodictimer_start env w = mrpd_timer_start_interval env (periodic_timer w) 1000 1000 w"

definition mrp_periodictimer_stop :: "os \<Rightarrow> world \<Rightarrow> int \<times> world" where
  "mrp_periodictimer_stop env w = mrpd_timer_stop env (periodic_timer w) w"

section \<open>Messages to local clients (mrpd.c)\<close>

definition MAX_MRPD_CMDSZ :: nat where "MAX_MRPD_CMDSZ = 1500"
definition MAX_FRAME_SIZE :: nat where "MAX_FRAME_SIZE = 2000"

definition mrpd_send_ctl_msg :: "os \<Rightarrow> sockaddr_in \<Rightarrow> string \<Rightarrow> nat \<Rightarrow> world \<Rightarrow> int \<times> world" where
  "mrpd_send_ctl_msg env client_addr notify_data notify_len w =
     (if control_socket w = -1 then (0, w)
      else call_os env (Sendto (control_socket w) notify_data notify_len client_addr) w)"

text \<open>Frames on a protocol socket.\<close>

definition mrpd_send :: "os \<Rightarrow> int \<Rightarrow> bytes \<Rightarrow> world \<Rightarrow> int \<times> world" where
  "mrpd_send env sock_fd frame w = call_os env (Send sock_fd frame) w"

text \<open>
  \<^verbatim>\<open>mrpd_recvmsgbuf\<close> allocates a zeroed buffer of \<^verbatim>\<open>MAX_FRAME_SIZE\<close> bytes and lets the
  kernel copy one datagram into it: what the receive functions read is the frame cut to
  that size and followed by zero bytes, together with the number of bytes received.
\<close>

definition recv_buffer :: "bytes \<Rightarrow> bytes" where
  "recv_buffer frame =
     take MAX_FRAME_SIZE frame @ replicate (MAX_FRAME_SIZE - length frame) 0"

definition recv_count :: "bytes \<Rightarrow> nat" where
  "recv_count frame = min (length frame) MAX_FRAME_SIZE"

section \<open>Sockets (mrpd.c)\<close>

text \<open>
  The interface name is fixed for the life of the daemon and left out of the calls. The
  station address is a global the function overwrites, also when a later call fails.
  The result is the return value and what \<^verbatim>\<open>*sock\<close> holds.
\<close>

definition read_hwaddr :: "os \<Rightarrow> int \<Rightarrow> world \<Rightarrow> world" where
  "read_hwaddr env fd w =
     (let (bs, w') = fold (\<lambda>i (bs, w). let (b, w') = call_os env (Hwaddr_byte fd i) w
                                       in (bs @ [word_of_int b], w')) [0..<6] ([], w)
      in w'\<lparr>station_addr := bs\<rparr>)"

definition mrpd_close_socket :: "os \<Rightarrow> int \<Rightarrow> world \<Rightarrow> int \<times> world" where
  "mrpd_close_socket env sock w = call_os env (Close sock) w"

definition mrpd_init_protocol_socket ::
  "os \<Rightarrow> u16 \<Rightarrow> bytes \<Rightarrow> world \<Rightarrow> int \<times> int \<times> world" where
  "mrpd_init_protocol_socket env etype multicast_addr w =
     (let (lsock, w1) = call_os env (Socket_packet etype) w
      in if lsock < 0 then (-1, -1, w1)
         else let (rc, w2) = call_os env (Ioctl_hwaddr lsock) w1
         in if rc < 0 then (-1, -1, snd (mrpd_close_socket env lsock w2))
         else let (rc, w3) = call_os env (Ioctl_ifindex lsock) (read_hwaddr env lsock w2)
         in if rc < 0 then (-1, -1, snd (mrpd_close_socket env lsock w3))
         else let (rc, w4) = call_os env (Bind_packet lsock etype) w3
         in if rc \<noteq> 0 then (-1, -1, snd (mrpd_close_socket env lsock w4))
         else let (rc, w5) = call_os env (Bindtodevice lsock) w4
         in if rc \<noteq> 0 then (-1, -1, snd (mrpd_close_socket env lsock w5))
         else let (rc, w6) = call_os env (Add_membership lsock multicast_addr) w5
         in if rc \<noteq> 0 then (-1, -1, snd (mrpd_close_socket env lsock w6))
         else (0, lsock, w6))"

text \<open>The control socket local clients talk to.\<close>

definition init_local_ctl :: "os \<Rightarrow> u16 \<Rightarrow> world \<Rightarrow> int \<times> world" where
  "init_local_ctl env mrpd_port w =
     (let (sock_fd, w1) = call_os env Socket_udp w
      in if sock_fd < 0 then (-1, if sock_fd \<noteq> -1 then snd (call_os env (Close sock_fd) w1) else w1)
         else let (rc, w2) = call_os env (Bind_udp sock_fd mrpd_port) w1
         in if rc < 0 then (-1, snd (call_os env (Close sock_fd) w2))
         else (0, w2\<lparr>control_socket := sock_fd\<rparr>))"

section \<open>Projections of the history\<close>

text \<open>The frames sent and the messages delivered to clients, oldest first.\<close>

fun frames_of :: "history \<Rightarrow> bytes list" where
  "frames_of [] = []"
| "frames_of (Send s f # h) = frames_of h @ [f]"
| "frames_of (_ # h) = frames_of h"

fun ctl_msgs_of :: "history \<Rightarrow> (sockaddr_in \<times> string) list" where
  "ctl_msgs_of [] = []"
| "ctl_msgs_of (Sendto s d n c # h) = ctl_msgs_of h @ [(c, d)]"
| "ctl_msgs_of (_ # h) = ctl_msgs_of h"

section \<open>Lemmas\<close>

text \<open>No operation of the daemon rewrites history or the globals of \<open>world\<close>.\<close>

definition extends :: "world \<Rightarrow> world \<Rightarrow> bool" where
  "extends w w' \<longleftrightarrow> (\<exists>h. w' = w\<lparr>trace := h @ trace w\<rparr>)"

lemma extends_refl [simp, intro]: "extends w w"
  unfolding extends_def by (rule exI [of _ "[]"]) simp

lemma extends_trans [trans]: "extends w w' \<Longrightarrow> extends w' w'' \<Longrightarrow> extends w w''"
  unfolding extends_def by (metis append_assoc world.surjective world.update_convs(1) world.select_convs(1))

lemma extends_call_os [simp, intro]: "extends w (snd (call_os env c w))"
  unfolding extends_def call_os_def by (rule exI [of _ "[c]"]) simp

lemma extends_malloc [simp, intro]: "extends w (snd (malloc env n w))"
  unfolding malloc_def by (simp add: case_prod_unfold)

lemma extends_globals:
  assumes "extends w w'"
  shows "p2pmac w' = p2pmac w" "lva_next w' = lva_next w" "control_socket w' = control_socket w"
    "periodic_timer w' = periodic_timer w" "gc_timer w' = gc_timer w"
    "station_addr w' = station_addr w" "crashed w' = crashed w"
  using assms by (auto simp: extends_def)

lemma length_recv_buffer [simp]: "length (recv_buffer frame) = MAX_FRAME_SIZE"
  by (simp add: recv_buffer_def)

lemma recv_buffer_nth_frame:
  "i < length frame \<Longrightarrow> i < MAX_FRAME_SIZE \<Longrightarrow> recv_buffer frame ! i = frame ! i"
  by (simp add: recv_buffer_def nth_append)

lemma recv_buffer_nth_pad:
  "length frame \<le> i \<Longrightarrow> i < MAX_FRAME_SIZE \<Longrightarrow> recv_buffer frame ! i = 0"
  by (simp add: recv_buffer_def nth_append)

lemma frames_of_append: "frames_of (h @ h') = frames_of h' @ frames_of h"
  by (induction h rule: frames_of.induct) auto

lemma ctl_msgs_of_append: "ctl_msgs_of (h @ h') = ctl_msgs_of h' @ ctl_msgs_of h"
  by (induction h rule: ctl_msgs_of.induct) auto

lemma extends_crashed: "extends w w' \<Longrightarrow> crashed w' = crashed w"
  by (auto simp: extends_def)

lemma crashed_crash [simp]: "crashed (crash w)"
  by (simp add: crash_def)

lemma crashed_os [simp]:
  "crashed (snd (call_os env c w)) = crashed w"
  "crashed (snd (malloc env n w)) = crashed w"
  "crashed (snd (mrpd_send_ctl_msg env client m k w)) = crashed w"
  by (simp_all add: call_os_def malloc_def mrpd_send_ctl_msg_def)

end
