(* ===== verification/Mrp.thy ===== *)
theory Mrp
  imports Mrp_Os
begin

text \<open>
  The protocol-independent part of the daemon, \<^verbatim>\<open>src/daemons/mrpd/mrp.c\<close>: the Applicant,
  Registrar, LeaveAll and PeriodicTransmission state machines of IEEE 802.1Q MRP, the
  timers they start and the list of clients. The integer constants of \<^verbatim>\<open>mrp.h\<close> are the
  constructors of datatypes of the same names.
\<close>

section \<open>Constants and data (mrp.h)\<close>

datatype applicant_state =
    MRP_VO_STATE | MRP_VP_STATE | MRP_VN_STATE | MRP_AN_STATE | MRP_AA_STATE | MRP_QA_STATE
  | MRP_LA_STATE | MRP_AO_STATE | MRP_QO_STATE | MRP_AP_STATE | MRP_QP_STATE | MRP_LO_STATE

datatype registrar_state = MRP_IN_STATE | MRP_LV_STATE | MRP_MT_STATE

datatype mrp_event =
    MRP_EVENT_BEGIN | MRP_EVENT_NEW | MRP_EVENT_JOIN | MRP_EVENT_LV | MRP_EVENT_TX
  | MRP_EVENT_TXLA | MRP_EVENT_TXLAF | MRP_EVENT_RNEW | MRP_EVENT_RJOININ | MRP_EVENT_RIN
  | MRP_EVENT_RJOINMT | MRP_EVENT_RMT | MRP_EVENT_RLV | MRP_EVENT_RLA | MRP_EVENT_FLUSH
  | MRP_EVENT_REDECLARE | MRP_EVENT_PERIODIC | MRP_EVENT_PERIODIC_ENABLE
  | MRP_EVENT_PERIODIC_DISABLE | MRP_EVENT_LVTIMER | MRP_EVENT_LVATIMER

datatype mrp_sndmsg =
    MRP_SND_NEW | MRP_SND_JOIN | MRP_SND_IN | MRP_SND_LV | MRP_SND_LVA | MRP_SND_NULL
  | MRP_SND_NONE

datatype mrp_encode = MRP_ENCODE_YES | MRP_ENCODE_OPTIONAL

datatype mrp_notify = MRP_NOTIFY_NONE | MRP_NOTIFY_NEW | MRP_NOTIFY_JOIN | MRP_NOTIFY_LV

text \<open>The periodic state is initialised to \<open>-1\<close> by \<^verbatim>\<open>main\<close>, neither passive nor active.\<close>

datatype mrp_timer_state = MRP_TIMER_PASSIVE | MRP_TIMER_ACTIVE | MRP_TIMER_UNSET

datatype registrar_ctl = MRP_REGISTRAR_CTL_NORMAL | MRP_REGISTRAR_CTL_FIXED
  | MRP_REGISTRAR_CTL_FORBIDDEN

datatype applicant_ctl = MRP_APPLICANT_CTL_NORMAL | MRP_APPLICANT_CTL_SILENT

definition MRP_JOINTIMER_VAL :: nat where "MRP_JOINTIMER_VAL = 100"
definition MRP_LVTIMER_VAL :: nat where "MRP_LVTIMER_VAL = 1000"
definition MRP_LVATIMER_VAL :: nat where "MRP_LVATIMER_VAL = 10000"

text \<open>\<open>app_previous_state\<close> is \<open>None\<close> where the allocator stores \<open>-1\<close>.\<close>

record mrp_applicant_attribute =
  app_state :: applicant_state
  app_tx :: bool
  app_sndmsg :: mrp_sndmsg
  app_encode :: mrp_encode
  app_previous_state :: "applicant_state option"

record mrp_registrar_attribute =
  reg_state :: registrar_state
  reg_notify :: mrp_notify
  reg_macaddr :: bytes

record mrp_timer =
  lva_state :: mrp_timer_state
  lva_tx :: bool
  lva_sndmsg :: mrp_sndmsg

record mrp_database =
  lva :: mrp_timer
  join_timer :: int
  join_timer_running :: bool
  lv_timer :: int
  lv_timer_running :: bool
  lva_timer :: int
  lva_timer_running :: bool
  clients :: "sockaddr_in list"
  registration :: registrar_ctl
  participant :: applicant_ctl

section \<open>Clients\<close>

fun client_lookup :: "sockaddr_in list \<Rightarrow> sockaddr_in \<Rightarrow> bool" where
  "client_lookup [] newclient = False"
| "client_lookup (c # list) newclient =
     (if sin_port c = sin_port newclient then True else client_lookup list newclient)"

fun mrp_client_count :: "sockaddr_in list \<Rightarrow> nat" where
  "mrp_client_count [] = 0"
| "mrp_client_count (c # list) = Suc (mrp_client_count list)"

text \<open>A client that is already known by its port is not added again; others go to the tail.\<close>

definition mrp_client_add ::
  "os \<Rightarrow> sockaddr_in list \<Rightarrow> sockaddr_in \<Rightarrow> world \<Rightarrow> int \<times> sockaddr_in list \<times> world" where
  "mrp_client_add env list newclient w =
     (if client_lookup list newclient then (0, list, w)
      else case malloc env 24 w of
             (ok, w') \<Rightarrow> if ok then (0, list @ [newclient], w') else (-1, list, w'))"

fun mrp_client_delete :: "sockaddr_in list \<Rightarrow> sockaddr_in \<Rightarrow> sockaddr_in list" where
  "mrp_client_delete [] newclient = []"
| "mrp_client_delete (c # list) newclient =
     (if newclient = c then list else c # mrp_client_delete list newclient)"

section \<open>Timers\<close>

definition mrp_jointimer_start :: "os \<Rightarrow> mrp_database \<Rightarrow> world \<Rightarrow> int \<times> mrp_database \<times> world" where
  "mrp_jointimer_start env db w =
     (let (ret, w') = (if \<not> join_timer_running db
                       then mrpd_timer_start env (join_timer db) MRP_JOINTIMER_VAL w
                       else (0, w))
      in (ret, if 0 \<le> ret then db\<lparr>join_timer_running := True\<rparr> else db, w'))"

definition mrp_jointimer_stop :: "os \<Rightarrow> mrp_database \<Rightarrow> world \<Rightarrow> int \<times> mrp_database \<times> world" where
  "mrp_jointimer_stop env db w =
     (let (ret, w') = mrpd_timer_stop env (join_timer db) w
      in (ret, db\<lparr>join_timer_running := False\<rparr>, w'))"

definition mrp_lvtimer_start :: "os \<Rightarrow> mrp_database \<Rightarrow> world \<Rightarrow> int \<times> mrp_database \<times> world" where
  "mrp_lvtimer_start env db w =
     (let (ret, w') = mrpd_timer_start env (lv_timer db) MRP_LVTIMER_VAL w
      in (ret, if 0 \<le> ret then db\<lparr>lv_timer_running := True\<rparr> else db, w'))"

definition mrp_lvtimer_stop :: "os \<Rightarrow> mrp_database \<Rightarrow> world \<Rightarrow> int \<times> mrp_database \<times> world" where
  "mrp_lvtimer_stop env db w =
     (let (ret, w') = mrpd_timer_stop env (lv_timer db) w
      in (ret, db\<lparr>lv_timer_running := False\<rparr>, w'))"

text \<open>\<^verbatim>\<open>random()\<close> is non-negative, so its value is taken as a natural number.\<close>

definition lva_timeout :: "int \<Rightarrow> nat" where
  "lva_timeout r = MRP_LVATIMER_VAL + nat r mod (MRP_LVATIMER_VAL div 2)"

definition mrp_lvatimer_start :: "os \<Rightarrow> mrp_database \<Rightarrow> world \<Rightarrow> int \<times> mrp_database \<times> world" where
  "mrp_lvatimer_start env db w =
     (let (r, w1) = call_os env Random w;
          (ret, w2) = (if \<not> lva_timer_running db
                       then mrpd_timer_start env (lva_timer db) (lva_timeout r) w1
                       else (0, w1))
      in (ret, if 0 \<le> ret then db\<lparr>lva_timer_running := True\<rparr> else db, w2))"

definition mrp_lvatimer_stop :: "os \<Rightarrow> mrp_database \<Rightarrow> world \<Rightarrow> int \<times> mrp_database \<times> world" where
  "mrp_lvatimer_stop env db w =
     (let (ret, w') = mrpd_timer_stop env (lva_timer db) w
      in (ret, db\<lparr>lva_timer_running := False\<rparr>, w'))"

text \<open>A database as \<^verbatim>\<open>memset\<close> to zero leaves it, and the creation of its timers.\<close>

definition cleared_database :: mrp_database where
  "cleared_database =
     \<lparr>lva = \<lparr>lva_state = MRP_TIMER_PASSIVE, lva_tx = False, lva_sndmsg = MRP_SND_NEW\<rparr>,
      join_timer = 0, join_timer_running = False, lv_timer = 0, lv_timer_running = False,
      lva_timer = 0, lva_timer_running = False, clients = [],
      registration = MRP_REGISTRAR_CTL_NORMAL, participant = MRP_APPLICANT_CTL_NORMAL\<rparr>"

definition mrpd_init_timers :: "os \<Rightarrow> mrp_database \<Rightarrow> world \<Rightarrow> int \<times> mrp_database \<times> world" where
  "mrpd_init_timers env db w =
     (let (join, w1) = mrpd_timer_create env w;
          (lv, w2) = mrpd_timer_create env w1;
          (lva, w3) = mrpd_timer_create env w2;
          db' = db\<lparr>join_timer := join, lv_timer := lv, lva_timer := lva,
                   join_timer_running := False, lv_timer_running := False, lva_timer_running := False\<rparr>
      in if join = -1 \<or> lv = -1 \<or> lva = -1
         then (-1, db', mrpd_timer_close env lva (mrpd_timer_close env lv (mrpd_timer_close env join w3)))
         else (0, db', w3))"

section \<open>The LeaveAll state machine\<close>

definition lva_store :: "mrp_timer_state \<Rightarrow> mrp_sndmsg \<Rightarrow> bool \<Rightarrow> mrp_database \<Rightarrow> mrp_database" where
  "lva_store la_state sndmsg tx db =
     db\<lparr>lva := \<lparr>lva_state = la_state, lva_tx = tx, lva_sndmsg = sndmsg\<rparr>\<rparr>"

definition lvatimer_restart :: "os \<Rightarrow> mrp_database \<Rightarrow> world \<Rightarrow> mrp_database \<times> world" where
  "lvatimer_restart env db w =
     (let (_, db1, w1) = mrp_lvatimer_stop env db w;
          (_, db2, w2) = mrp_lvatimer_start env db1 w1
      in (db2, w2))"

definition mrp_lvatimer_fsm ::
  "os \<Rightarrow> mrp_database \<Rightarrow> mrp_event \<Rightarrow> world \<Rightarrow> int \<times> mrp_database \<times> world" where
  "mrp_lvatimer_fsm env db event w =
     (case event of
        MRP_EVENT_BEGIN \<Rightarrow>
          (let (_, db1, w1) = mrp_lvatimer_start env db w
           in (0, lva_store MRP_TIMER_PASSIVE MRP_SND_NONE False db1, w1))
      | MRP_EVENT_TX \<Rightarrow>
          (if lva_state (lva db) = MRP_TIMER_ACTIVE
           then (0, lva_store MRP_TIMER_PASSIVE MRP_SND_LVA True db, w)
           else (0, lva_store (lva_state (lva db)) MRP_SND_NONE False db, w))
      | MRP_EVENT_RLA \<Rightarrow>
          (let (db1, w1) = lvatimer_restart env db w
           in (0, lva_store MRP_TIMER_PASSIVE MRP_SND_NONE False db1, w1))
      | MRP_EVENT_LVATIMER \<Rightarrow>
          (let (db1, w1) = lvatimer_restart env db w
           in (0, lva_store MRP_TIMER_ACTIVE MRP_SND_NONE False db1, w1))
      | _ \<Rightarrow> (-1, db, w))"

section \<open>The PeriodicTransmission state machine\<close>

definition mrp_periodictimer_fsm ::
  "os \<Rightarrow> mrp_timer_state \<Rightarrow> mrp_event \<Rightarrow> world \<Rightarrow> int \<times> mrp_timer_state \<times> world" where
  "mrp_periodictimer_fsm env p_state event w =
     (case event of
        MRP_EVENT_BEGIN \<Rightarrow>
          (let (_, w1) = mrp_periodictimer_start env w in (0, MRP_TIMER_ACTIVE, w1))
      | MRP_EVENT_PERIODIC \<Rightarrow>
          (if p_state = MRP_TIMER_ACTIVE
           then let (_, w1) = mrp_periodictimer_start env w in (0, p_state, w1)
           else (0, p_state, w))
      | MRP_EVENT_PERIODIC_DISABLE \<Rightarrow> (0, MRP_TIMER_PASSIVE, w)
      | MRP_EVENT_PERIODIC_ENABLE \<Rightarrow>
          (if p_state = MRP_TIMER_PASSIVE
           then let (_, w1) = mrp_periodictimer_start env w in (0, MRP_TIMER_ACTIVE, w1)
           else (0, p_state, w))
      | _ \<Rightarrow> (-1, p_state, w))"

section \<open>The Applicant state machine\<close>

text \<open>
  Each case of the outer \<^verbatim>\<open>switch\<close> is a function of the current state; the result is what
  the case leaves in \<^verbatim>\<open>mrp_state\<close>, \<^verbatim>\<open>tx\<close>, \<^verbatim>\<open>optional\<close> and \<^verbatim>\<open>sndmsg\<close>.
\<close>

type_synonym applicant_action = "applicant_state \<times> bool \<times> bool \<times> mrp_sndmsg"

abbreviation quiet :: "applicant_state \<Rightarrow> applicant_action" where
  "quiet s \<equiv> (s, False, False, MRP_SND_NULL)"

abbreviation must_send :: "mrp_sndmsg \<Rightarrow> applicant_state \<Rightarrow> applicant_action" where
  "must_send m s \<equiv> (s, True, False, m)"

abbreviation may_send :: "mrp_sndmsg \<Rightarrow> applicant_state \<Rightarrow> applicant_action" where
  "may_send m s \<equiv> (s, True, True, m)"

fun applicant_new :: "applicant_state \<Rightarrow> applicant_action" where
  "applicant_new MRP_VN_STATE = quiet MRP_VN_STATE"
| "applicant_new MRP_AN_STATE = quiet MRP_AN_STATE"
| "applicant_new _ = quiet MRP_VN_STATE"

fun applicant_join :: "applicant_state \<Rightarrow> applicant_action" where
  "applicant_join MRP_LO_STATE = quiet MRP_VP_STATE"
| "applicant_join MRP_VO_STATE = quiet MRP_VP_STATE"
| "applicant_join MRP_LA_STATE = quiet MRP_AA_STATE"
| "applicant_join MRP_AO_STATE = quiet MRP_AP_STATE"
| "applicant_join MRP_QO_STATE = quiet MRP_QP_STATE"
| "applicant_join s = quiet s"

fun applicant_lv :: "applicant_state \<Rightarrow> applicant_action" where
  "applicant_lv MRP_VN_STATE = quiet MRP_LA_STATE"
| "applicant_lv MRP_AN_STATE = quiet MRP_LA_STATE"
| "applicant_lv MRP_AA_STATE = quiet MRP_LA_STATE"
| "applicant_lv MRP_QA_STATE = quiet MRP_LA_STATE"
| "applicant_lv MRP_VP_STATE = quiet MRP_VO_STATE"
| "applicant_lv MRP_AP_STATE = quiet MRP_AO_STATE"
| "applicant_lv MRP_QP_STATE = quiet MRP_QO_STATE"
| "applicant_lv s = quiet s"

fun applicant_txla :: "applicant_state \<Rightarrow> applicant_action" where
  "applicant_txla MRP_VO_STATE = may_send MRP_SND_IN MRP_LO_STATE"
| "applicant_txla MRP_VP_STATE = must_send MRP_SND_IN MRP_AA_STATE"
| "applicant_txla MRP_VN_STATE = must_send MRP_SND_NEW MRP_AN_STATE"
| "applicant_txla MRP_AN_STATE = must_send MRP_SND_NEW MRP_QA_STATE"
| "applicant_txla MRP_QP_STATE = must_send MRP_SND_JOIN MRP_QA_STATE"
| "applicant_txla MRP_AP_STATE = must_send MRP_SND_JOIN MRP_QA_STATE"
| "applicant_txla MRP_AA_STATE = must_send MRP_SND_JOIN MRP_QA_STATE"
| "applicant_txla MRP_QA_STATE = must_send MRP_SND_JOIN MRP_QA_STATE"
| "applicant_txla MRP_LA_STATE = may_send MRP_SND_IN MRP_LO_STATE"
| "applicant_txla MRP_AO_STATE = may_send MRP_SND_IN MRP_LO_STATE"
| "applicant_txla MRP_QO_STATE = may_send MRP_SND_IN MRP_LO_STATE"
| "applicant_txla MRP_LO_STATE = may_send MRP_SND_IN MRP_VO_STATE"

fun applicant_txlaf :: "applicant_state \<Rightarrow> applicant_action" where
  "applicant_txlaf MRP_VO_STATE = quiet MRP_LO_STATE"
| "applicant_txlaf MRP_LO_STATE = quiet MRP_LO_STATE"
| "applicant_txlaf MRP_VP_STATE = quiet MRP_VP_STATE"
| "applicant_txlaf MRP_VN_STATE = quiet MRP_VN_STATE"
| "applicant_txlaf MRP_AN_STATE = quiet MRP_VN_STATE"
| "applicant_txlaf MRP_QP_STATE = quiet MRP_VP_STATE"
| "applicant_txlaf MRP_AP_STATE = quiet MRP_VP_STATE"
| "applicant_txlaf MRP_AA_STATE = quiet MRP_VP_STATE"
| "applicant_txlaf MRP_QA_STATE = quiet MRP_VP_STATE"
| "applicant_txlaf MRP_QO_STATE = quiet MRP_LO_STATE"
| "applicant_txlaf MRP_AO_STATE = quiet MRP_LO_STATE"
| "applicant_txlaf MRP_LA_STATE = quiet MRP_LO_STATE"

fun applicant_tx :: "bool \<Rightarrow> applicant_state \<Rightarrow> applicant_action" where
  "applicant_tx registrar_is_IN MRP_VO_STATE = may_send MRP_SND_IN MRP_VO_STATE"
| "applicant_tx registrar_is_IN MRP_VP_STATE = must_send MRP_SND_JOIN MRP_AA_STATE"
| "applicant_tx registrar_is_IN MRP_VN_STATE = must_send MRP_SND_NEW MRP_AN_STATE"
| "applicant_tx registrar_is_IN MRP_AN_STATE =
     must_send MRP_SND_NEW (if registrar_is_IN then MRP_QA_STATE else MRP_AA_STATE)"
| "applicant_tx registrar_is_IN MRP_AP_STATE = must_send MRP_SND_JOIN MRP_QA_STATE"
| "applicant_tx registrar_is_IN MRP_AA_STATE = must_send MRP_SND_JOIN MRP_QA_STATE"
| "applicant_tx registrar_is_IN MRP_QA_STATE = may_send MRP_SND_JOIN MRP_QA_STATE"
| "applicant_tx registrar_is_IN MRP_LA_STATE = must_send MRP_SND_LV MRP_VO_STATE"
| "applicant_tx registrar_is_IN MRP_AO_STATE = may_send MRP_SND_IN MRP_AO_STATE"
| "applicant_tx registrar_is_IN MRP_QO_STATE = may_send MRP_SND_IN MRP_QO_STATE"
| "applicant_tx registrar_is_IN MRP_QP_STATE = may_send MRP_SND_IN MRP_QP_STATE"
| "applicant_tx registrar_is_IN MRP_LO_STATE = must_send MRP_SND_IN MRP_VO_STATE"

fun applicant_rjoinin :: "int \<Rightarrow> applicant_state \<Rightarrow> applicant_action" where
  "applicant_rjoinin p2p MRP_VO_STATE = quiet (if p2p = 0 then MRP_AO_STATE else MRP_VO_STATE)"
| "applicant_rjoinin p2p MRP_VP_STATE = quiet (if p2p = 0 then MRP_AP_STATE else MRP_VP_STATE)"
| "applicant_rjoinin p2p MRP_AA_STATE = quiet MRP_QA_STATE"
| "applicant_rjoinin p2p MRP_AO_STATE = quiet MRP_QO_STATE"
| "applicant_rjoinin p2p MRP_AP_STATE = quiet MRP_QP_STATE"
| "applicant_rjoinin p2p s = quiet s"

fun applicant_rin :: "int \<Rightarrow> applicant_state \<Rightarrow> applicant_action" where
  "applicant_rin p2p MRP_AA_STATE = quiet (if p2p = 1 then MRP_QA_STATE else MRP_AA_STATE)"
| "applicant_rin p2p s = quiet s"

fun applicant_rmt :: "applicant_state \<Rightarrow> applicant_action" where
  "applicant_rmt MRP_QA_STATE = quiet MRP_AA_STATE"
| "applicant_rmt MRP_QO_STATE = quiet MRP_AO_STATE"
| "applicant_rmt MRP_QP_STATE = quiet MRP_AP_STATE"
| "applicant_rmt MRP_LO_STATE = quiet MRP_VO_STATE"
| "applicant_rmt s = quiet s"

fun applicant_rlv :: "applicant_state \<Rightarrow> applicant_action" where
  "applicant_rlv MRP_VO_STATE = quiet MRP_LO_STATE"
| "applicant_rlv MRP_AN_STATE = quiet MRP_VN_STATE"
| "applicant_rlv MRP_QA_STATE = quiet MRP_VP_STATE"
| "applicant_rlv MRP_AA_STATE = quiet MRP_VP_STATE"
| "applicant_rlv MRP_AO_STATE = quiet MRP_LO_STATE"
| "applicant_rlv MRP_QO_STATE = quiet MRP_LO_STATE"
| "applicant_rlv MRP_AP_STATE = quiet MRP_VP_STATE"
| "applicant_rlv MRP_QP_STATE = quiet MRP_VP_STATE"
| "applicant_rlv s = quiet s"

fun applicant_periodic :: "applicant_state \<Rightarrow> applicant_action" where
  "applicant_periodic MRP_QA_STATE = quiet MRP_AA_STATE"
| "applicant_periodic MRP_QP_STATE = quiet MRP_AP_STATE"
| "applicant_periodic s = quiet s"

text \<open>The outer \<^verbatim>\<open>switch\<close>; \<open>None\<close> is its \<^verbatim>\<open>default\<close>, which returns \<open>-1\<close>.\<close>

fun applicant_switch :: "int \<Rightarrow> applicant_state \<Rightarrow> mrp_event \<Rightarrow> bool \<Rightarrow> applicant_action option" where
  "applicant_switch p2p s MRP_EVENT_BEGIN is_IN = Some (quiet MRP_VO_STATE)"
| "applicant_switch p2p s MRP_EVENT_NEW is_IN = Some (applicant_new s)"
| "applicant_switch p2p s MRP_EVENT_JOIN is_IN = Some (applicant_join s)"
| "applicant_switch p2p s MRP_EVENT_LV is_IN = Some (applicant_lv s)"
| "applicant_switch p2p s MRP_EVENT_TXLA is_IN = Some (applicant_txla s)"
| "applicant_switch p2p s MRP_EVENT_TXLAF is_IN = Some (applicant_txlaf s)"
| "applicant_switch p2p s MRP_EVENT_TX is_IN = Some (applicant_tx is_IN s)"
| "applicant_switch p2p s MRP_EVENT_RNEW is_IN = Some (quiet s)"
| "applicant_switch p2p s MRP_EVENT_RJOININ is_IN = Some (applicant_rjoinin p2p s)"
| "applicant_switch p2p s MRP_EVENT_RIN is_IN = Some (applicant_rin p2p s)"
| "applicant_switch p2p s MRP_EVENT_RJOINMT is_IN = Some (applicant_rmt s)"
| "applicant_switch p2p s MRP_EVENT_RMT is_IN = Some (applicant_rmt s)"
| "applicant_switch p2p s MRP_EVENT_RLV is_IN = Some (applicant_rlv s)"
| "applicant_switch p2p s MRP_EVENT_RLA is_IN = Some (applicant_rlv s)"
| "applicant_switch p2p s MRP_EVENT_REDECLARE is_IN = Some (applicant_rlv s)"
| "applicant_switch p2p s MRP_EVENT_PERIODIC is_IN = Some (applicant_periodic s)"
| "applicant_switch p2p s _ is_IN = None"

definition mrp_applicant_fsm ::
  "int \<Rightarrow> mrp_applicant_attribute \<Rightarrow> mrp_event \<Rightarrow> bool \<Rightarrow> int \<times> mrp_applicant_attribute" where
  "mrp_applicant_fsm p2p attrib event registrar_is_IN =
     (case applicant_switch p2p (app_state attrib) event registrar_is_IN of
        None \<Rightarrow> (-1, attrib)
      | Some (mrp_state, tx, optional, sndmsg) \<Rightarrow>
          (0, \<lparr>app_state = mrp_state, app_tx = tx, app_sndmsg = sndmsg,
               app_encode = (if optional then MRP_ENCODE_OPTIONAL else MRP_ENCODE_YES),
               app_previous_state = Some (app_state attrib)\<rparr>))"

definition mrp_applicant_state_transition_implies_tx :: "mrp_applicant_attribute \<Rightarrow> nat" where
  "mrp_applicant_state_transition_implies_tx attrib =
     (if app_previous_state attrib = Some (app_state attrib) then 0
      else if app_state attrib \<in> {MRP_VP_STATE, MRP_VN_STATE, MRP_AN_STATE, MRP_AA_STATE,
                                   MRP_LA_STATE} then 1
      else 0)"

section \<open>The Registrar state machine\<close>

text \<open>The leave timer is started where the source starts it, on leaving the IN state.\<close>

fun registrar_switch :: "registrar_state \<Rightarrow> mrp_event \<Rightarrow> (registrar_state \<times> mrp_notify \<times> bool) option" where
  "registrar_switch s MRP_EVENT_BEGIN = Some (MRP_MT_STATE, MRP_NOTIFY_NONE, False)"
| "registrar_switch s MRP_EVENT_RLV =
     Some (if s = MRP_IN_STATE then (MRP_LV_STATE, MRP_NOTIFY_LV, True) else (s, MRP_NOTIFY_LV, False))"
| "registrar_switch s MRP_EVENT_TXLA =
     Some (if s = MRP_IN_STATE then (MRP_LV_STATE, MRP_NOTIFY_NONE, True) else (s, MRP_NOTIFY_NONE, False))"
| "registrar_switch s MRP_EVENT_RLA =
     Some (if s = MRP_IN_STATE then (MRP_LV_STATE, MRP_NOTIFY_NONE, True) else (s, MRP_NOTIFY_NONE, False))"
| "registrar_switch s MRP_EVENT_REDECLARE =
     Some (if s = MRP_IN_STATE then (MRP_LV_STATE, MRP_NOTIFY_NONE, True) else (s, MRP_NOTIFY_NONE, False))"
| "registrar_switch s MRP_EVENT_RNEW = Some (MRP_IN_STATE, MRP_NOTIFY_NEW, False)"
| "registrar_switch s MRP_EVENT_RJOININ =
     Some (MRP_IN_STATE, if s = MRP_IN_STATE then MRP_NOTIFY_NONE else MRP_NOTIFY_JOIN, False)"
| "registrar_switch s MRP_EVENT_RJOINMT =
     Some (MRP_IN_STATE, if s = MRP_IN_STATE then MRP_NOTIFY_NONE else MRP_NOTIFY_JOIN, False)"
| "registrar_switch s MRP_EVENT_LVTIMER =
     Some (if s = MRP_LV_STATE then (MRP_MT_STATE, MRP_NOTIFY_LV, False) else (s, MRP_NOTIFY_NONE, False))"
| "registrar_switch s MRP_EVENT_FLUSH = Some (MRP_MT_STATE, MRP_NOTIFY_LV, False)"
| "registrar_switch s MRP_EVENT_RMT = Some (s, MRP_NOTIFY_NONE, False)"
| "registrar_switch s MRP_EVENT_RIN = Some (s, MRP_NOTIFY_NONE, False)"
| "registrar_switch s _ = None"

definition mrp_registrar_fsm ::
  "os \<Rightarrow> mrp_registrar_attribute \<Rightarrow> mrp_database \<Rightarrow> mrp_event \<Rightarrow> world \<Rightarrow>
     int \<times> mrp_registrar_attribute \<times> mrp_database \<times> world" where
  "mrp_registrar_fsm env attrib db event w =
     (case registrar_switch (reg_state attrib) event of
        None \<Rightarrow> (-1, attrib, db, w)
      | Some (mrp_state, notify, start_lvtimer) \<Rightarrow>
          (let (_, db', w') = (if start_lvtimer then mrp_lvtimer_start env db w else (0, db, w))
           in (0, attrib\<lparr>reg_state := mrp_state, reg_notify := notify\<rparr>, db', w')))"

definition mrp_registrar_in :: "mrp_registrar_attribute \<Rightarrow> bool" where
  "mrp_registrar_in attrib \<longleftrightarrow> reg_state attrib = MRP_IN_STATE"

section \<open>State names for client messages\<close>

fun registrar_state_name :: "registrar_state \<Rightarrow> string" where
  "registrar_state_name MRP_IN_STATE = ''IN''"
| "registrar_state_name MRP_LV_STATE = ''LV''"
| "registrar_state_name MRP_MT_STATE = ''MT''"

fun applicant_state_name :: "applicant_state \<Rightarrow> string" where
  "applicant_state_name MRP_VO_STATE = ''VO''"
| "applicant_state_name MRP_VP_STATE = ''VP''"
| "applicant_state_name MRP_VN_STATE = ''VN''"
| "applicant_state_name MRP_AN_STATE = ''AN''"
| "applicant_state_name MRP_AA_STATE = ''AA''"
| "applicant_state_name MRP_QA_STATE = ''QA''"
| "applicant_state_name MRP_LA_STATE = ''LA''"
| "applicant_state_name MRP_AO_STATE = ''AO''"
| "applicant_state_name MRP_QO_STATE = ''QO''"
| "applicant_state_name MRP_AP_STATE = ''AP''"
| "applicant_state_name MRP_QP_STATE = ''QP''"
| "applicant_state_name MRP_LO_STATE = ''LO''"

definition mrp_decode_state ::
  "mrp_registrar_attribute \<Rightarrow> mrp_applicant_attribute \<Rightarrow> nat \<Rightarrow> string" where
  "mrp_decode_state rattrib aattrib len =
     snprintf (len - 1)
       (applicant_state_name (app_state aattrib) @ ''/'' @
        snprintf 7 (registrar_state_name (reg_state rattrib)))"

definition mrp_init :: "world \<Rightarrow> world" where
  "mrp_init w = w\<lparr>p2pmac := 1, lva_next := MRP_LVATIMER_VAL\<rparr>"

section \<open>Specification of the Applicant: what the local application declared\<close>

text \<open>
  802.1Q describes the Applicant by twelve states. What its user relies on is one bit:
  whether the attribute is declared. \<open>declares\<close> is the abstraction, \<open>mad_declared\<close> the
  abstract machine: only the requests of the local application (and the initialisation)
  change it.
\<close>

fun declares :: "applicant_state \<Rightarrow> bool" where
  "declares MRP_VP_STATE = True"
| "declares MRP_VN_STATE = True"
| "declares MRP_AN_STATE = True"
| "declares MRP_AA_STATE = True"
| "declares MRP_QA_STATE = True"
| "declares MRP_AP_STATE = True"
| "declares MRP_QP_STATE = True"
| "declares _ = False"

fun mad_declared :: "bool \<Rightarrow> mrp_event \<Rightarrow> bool" where
  "mad_declared d MRP_EVENT_NEW = True"
| "mad_declared d MRP_EVENT_JOIN = True"
| "mad_declared d MRP_EVENT_LV = False"
| "mad_declared d MRP_EVENT_BEGIN = False"
| "mad_declared d _ = d"

text \<open>A run of the machine: events with the registrar flag the caller passes along.\<close>

fun applicant_run ::
  "int \<Rightarrow> mrp_applicant_attribute \<Rightarrow> (mrp_event \<times> bool) list \<Rightarrow> mrp_applicant_attribute" where
  "applicant_run p2p a [] = a"
| "applicant_run p2p a ((e, is_IN) # es) =
     applicant_run p2p (snd (mrp_applicant_fsm p2p a e is_IN)) es"




text \<open>The next transmission opportunity carries a message that may not be left out.\<close>

definition owes_message :: "bool \<Rightarrow> applicant_state \<Rightarrow> bool" where
  "owes_message is_IN s \<longleftrightarrow> (case applicant_tx is_IN s of (_, tx, optional, _) \<Rightarrow> tx \<and> \<not> optional)"

section \<open>Lemmas on the Applicant\<close>

lemma applicant_switch_declares:
  "applicant_switch p2p s e is_IN = Some (s', r) \<Longrightarrow> declares s' = mad_declared (declares s) e"
  by (cases e; cases s) (auto split: if_splits)

lemma mad_declared_default:
  "applicant_switch p2p s e is_IN = None \<Longrightarrow> mad_declared d e = d"
  by (cases e) auto

lemma mrp_applicant_fsm_declares:
  "declares (app_state (snd (mrp_applicant_fsm p2p a e is_IN))) = mad_declared (declares (app_state a)) e"
  by (auto simp: mrp_applicant_fsm_def mad_declared_default applicant_switch_declares
      split: option.splits prod.splits)




lemma mrp_applicant_fsm_rc:
  "fst (mrp_applicant_fsm p2p a e is_IN) = (if applicant_switch p2p (app_state a) e is_IN = None then -1 else 0)"
  by (auto simp: mrp_applicant_fsm_def split: option.splits prod.splits)

section \<open>Lemmas on the Registrar and the timers\<close>

lemma mrp_registrar_fsm_reg:
  "fst (snd (mrp_registrar_fsm env r db e w)) =
     (case registrar_switch (reg_state r) e of
        None \<Rightarrow> r
      | Some (s, n, _) \<Rightarrow> r\<lparr>reg_state := s, reg_notify := n\<rparr>)"
  by (auto simp: mrp_registrar_fsm_def split: option.splits prod.splits)

lemma registrar_switch_LV:
  "registrar_switch s e = Some (MRP_LV_STATE, n, t) \<Longrightarrow> s = MRP_LV_STATE \<or> t"
  by (cases e) (auto split: if_splits)

lemma lva_timeout_bounds: "MRP_LVATIMER_VAL \<le> lva_timeout r \<and> 2 * lva_timeout r < 3 * MRP_LVATIMER_VAL"
proof -
  have "nat r mod (MRP_LVATIMER_VAL div 2) < MRP_LVATIMER_VAL div 2"
    by (rule mod_less_divisor) (simp add: MRP_LVATIMER_VAL_def)
  then show ?thesis by (simp add: lva_timeout_def MRP_LVATIMER_VAL_def)
qed

section \<open>Lemmas on requested messages\<close>

lemma applicant_switch_message:
  "applicant_switch p2p s e is_IN = Some (s', True, optional, m) \<Longrightarrow>
     e \<in> {MRP_EVENT_TX, MRP_EVENT_TXLA} \<and> m \<in> {MRP_SND_IN, MRP_SND_NEW, MRP_SND_LV, MRP_SND_JOIN} \<and>
     (m \<in> {MRP_SND_NEW, MRP_SND_JOIN} \<longrightarrow> declares s \<and> declares s') \<and>
     (m = MRP_SND_LV \<longleftrightarrow> e = MRP_EVENT_TX \<and> s = MRP_LA_STATE)"
  by (cases e; cases s) (auto split: if_splits)

lemma mrp_applicant_fsm_tx_sndmsg:
  assumes "app_tx (snd (mrp_applicant_fsm p2p a e is_IN))" "\<not> app_tx a"
  shows "app_sndmsg (snd (mrp_applicant_fsm p2p a e is_IN)) \<in>
           {MRP_SND_IN, MRP_SND_NEW, MRP_SND_LV, MRP_SND_JOIN}"
  using assms applicant_switch_message
  by (fastforce simp: mrp_applicant_fsm_def split: option.splits)

text \<open>The LeaveAll machine along a sequence of events, ignoring its timer.\<close>

fun leaveall_run :: "os \<Rightarrow> mrp_database \<Rightarrow> mrp_event list \<Rightarrow> world \<Rightarrow> mrp_database \<times> world" where
  "leaveall_run env db [] w = (db, w)"
| "leaveall_run env db (e # es) w =
     (let (_, db', w') = mrp_lvatimer_fsm env db e w in leaveall_run env db' es w')"

lemma mrp_lvatimer_start_lva [simp]: "lva (fst (snd (mrp_lvatimer_start env db w))) = lva db"
  by (simp add: mrp_lvatimer_start_def Let_def case_prod_unfold)

lemma mrp_lvatimer_stop_lva [simp]: "lva (fst (snd (mrp_lvatimer_stop env db w))) = lva db"
  by (simp add: mrp_lvatimer_stop_def Let_def case_prod_unfold)

text \<open>Specification: whether a LeaveAll is waiting for the next transmission opportunity.\<close>

fun leaveall_pending :: "bool \<Rightarrow> mrp_event \<Rightarrow> bool" where
  "leaveall_pending p MRP_EVENT_LVATIMER = True"
| "leaveall_pending p MRP_EVENT_RLA = False"
| "leaveall_pending p MRP_EVENT_BEGIN = False"
| "leaveall_pending p MRP_EVENT_TX = False"
| "leaveall_pending p _ = p"

lemma mrp_lvatimer_fsm_pending:
  "mrp_lvatimer_fsm env db e w = (rc, db', w') \<Longrightarrow>
   (lva_state (lva db') = MRP_TIMER_ACTIVE) = leaveall_pending (lva_state (lva db) = MRP_TIMER_ACTIVE) e"
  by (cases e) (auto simp: mrp_lvatimer_fsm_def lva_store_def split: if_splits prod.splits)

section \<open>Properties\<close>

text \<open>
  C1: The twelve state Applicant refines the one bit declaration of the application. After
  any sequence of events, of any length, from any state and on any kind of link, the
  attribute is declared exactly if the abstract machine, which only the local New, Join,
  Leave and Begin requests move, says so: no message from a peer, timer or transmission
  ever makes or withdraws a declaration.
\<close>

theorem applicant_refines_declaration:
  "declares (app_state (applicant_run p2p a es)) =
   foldl mad_declared (declares (app_state a)) (map fst es)"
  by (induction p2p a es rule: applicant_run.induct) (auto simp: mrp_applicant_fsm_declares)



text \<open>
  C3: The caller asks for another transmission opportunity exactly when one is needed. After
  a transmission, \<open>mrp_applicant_state_transition_implies_tx\<close> is non-zero if and only if the
  next opportunity will carry a message that may not be left out, whatever the registrar
  state will be then.
\<close>

theorem implies_tx_iff_message_owed:
  "mrp_applicant_state_transition_implies_tx (snd (mrp_applicant_fsm p2p a MRP_EVENT_TX is_IN)) \<noteq> 0 \<longleftrightarrow>
   owes_message is_IN' (app_state (snd (mrp_applicant_fsm p2p a MRP_EVENT_TX is_IN)))"
  by (cases "app_state a")
     (auto simp: mrp_applicant_fsm_def mrp_applicant_state_transition_implies_tx_def owes_message_def)



text \<open>
  C5: A registration is never dropped at once. One step of the Registrar from the registered
  state keeps the attribute registered, or moves it to the leaving state and arms the leave
  timer for one second, or was an initialisation or a flush; and from the leaving
  state the registration is dropped only by the leave timer, an initialisation or a flush, and
  regained by every New and Join message.
\<close>

theorem registration_left_through_leave_timer:
  assumes "mrp_registrar_fsm env r db event w = (rc, r', db', w')"
    and "event \<notin> {MRP_EVENT_BEGIN, MRP_EVENT_FLUSH}"
  shows "case reg_state r of
      MRP_IN_STATE \<Rightarrow>
        reg_state r' = MRP_IN_STATE \<or>
        (reg_state r' = MRP_LV_STATE \<and>
         trace w' = Timerfd_settime (lv_timer db) MRP_LVTIMER_VAL 0 # trace w \<and>
         (0 \<le> env (trace w') \<longrightarrow> lv_timer_running db'))
    | MRP_LV_STATE \<Rightarrow>
        (reg_state r' = MRP_MT_STATE \<longleftrightarrow> event = MRP_EVENT_LVTIMER) \<and>
        (reg_state r' = MRP_IN_STATE \<longleftrightarrow> event \<in> {MRP_EVENT_RNEW, MRP_EVENT_RJOININ, MRP_EVENT_RJOINMT})
    | MRP_MT_STATE \<Rightarrow> reg_state r' \<noteq> MRP_LV_STATE"
  using assms
  by (cases event; cases "reg_state r")
     (auto simp: mrp_registrar_fsm_def mrp_lvtimer_start_def mrpd_timer_start_def
        mrpd_timer_start_interval_def call_os_def)

theorem registration_left_through_leave_timer_witness:
  "let (rc, r, db, w) = mrp_registrar_fsm (\<lambda>h. 0)
      \<lparr>reg_state = MRP_IN_STATE, reg_notify = MRP_NOTIFY_NONE, reg_macaddr = []\<rparr>
      cleared_database MRP_EVENT_RLA boot_world
   in reg_state r = MRP_LV_STATE \<and> lv_timer_running db"
  using registration_left_through_leave_timer
    [of "\<lambda>h. 0" "\<lparr>reg_state = MRP_IN_STATE, reg_notify = MRP_NOTIFY_NONE, reg_macaddr = []\<rparr>"
      cleared_database MRP_EVENT_RLA boot_world]
  by (auto simp: mrp_registrar_fsm_def split: prod.splits)

text \<open>
  C6: A LeaveAll is sent once per expiry of the LeaveAll timer, and a LeaveAll of a peer
  suppresses it. After any sequence of events of the LeaveAll machine, a transmission
  opportunity requests a LeaveAll message exactly if the timer expired and since then neither
  a transmission, a received LeaveAll nor a restart has happened.
\<close>

theorem leaveall_sent_once_unless_suppressed:
  "lva_tx (lva (fst (leaveall_run env db (es @ [MRP_EVENT_TX]) w))) =
   foldl leaveall_pending (lva_state (lva db) = MRP_TIMER_ACTIVE) es"
proof (induction es arbitrary: db w)
  case Nil
  then show ?case by (auto simp: mrp_lvatimer_fsm_def lva_store_def)
next
  case (Cons e es)
  obtain rc db' w' where f: "mrp_lvatimer_fsm env db e w = (rc, db', w')" by (metis prod_cases3)
  then have "(lva_state (lva db') = MRP_TIMER_ACTIVE) =
      leaveall_pending (lva_state (lva db) = MRP_TIMER_ACTIVE) e"
    by (rule mrp_lvatimer_fsm_pending)
  with Cons [of db' w'] f show ?case by simp
qed

text \<open>
  C7: When the LeaveAll timer is rearmed, it is first disarmed and then set, once, to a
  value of at least 10 and less than 15 seconds, whatever \<^verbatim>\<open>random()\<close> returns.
\<close>

theorem leaveall_timer_window:
  assumes "event \<in> {MRP_EVENT_RLA, MRP_EVENT_LVATIMER}"
  shows "\<exists>v. 10000 \<le> v \<and> v < 15000 \<and>
    trace (snd (snd (mrp_lvatimer_fsm env db event w))) =
      [Timerfd_settime (lva_timer db) v 0, Random, Timerfd_settime (lva_timer db) 0 0] @ trace w"
  using assms lva_timeout_bounds
  by (auto simp: mrp_lvatimer_fsm_def lvatimer_restart_def mrp_lvatimer_stop_def mrp_lvatimer_start_def
        mrpd_timer_start_def mrpd_timer_start_interval_def mrpd_timer_stop_def call_os_def
        MRP_LVATIMER_VAL_def)

theorem leaveall_timer_window_witness:
  "\<exists>v. 10000 \<le> v \<and> v < 15000 \<and>
    trace (snd (snd (mrp_lvatimer_fsm (\<lambda>h. 7) cleared_database MRP_EVENT_RLA boot_world))) =
      [Timerfd_settime 0 v 0, Random, Timerfd_settime 0 0 0]"
  using leaveall_timer_window [of MRP_EVENT_RLA "\<lambda>h. 7" cleared_database boot_world]
  by (simp add: cleared_database_def boot_world_def)

end
