(* ===== verification/Mrp_App.thy ===== *)
theory Mrp_App
  imports Mrp
begin

text \<open>
  What the three MRP applications (MVRP, MMRP, MSRP) have in common: the attribute with
  its Applicant and Registrar, the database of an application, and the loops that drive
  the state machines of every attribute. The attribute lists of the source are doubly
  linked; here they are lists and a position stands for a node pointer. The union that
  identifies an attribute (a VID, a MAC address, a stream) is the type parameter.
\<close>

record 'k mrp_attribute =
  attribute :: 'k
  applicant :: mrp_applicant_attribute
  registrar :: mrp_registrar_attribute

record 'k mrp_app =
  mrp_db :: mrp_database
  attrib_list :: "'k mrp_attribute list"
  send_empty_LeaveAll_flag :: bool

text \<open>The attribute the \<^verbatim>\<open>alloc\<close> functions initialise.\<close>

definition fresh_attribute :: "'k \<Rightarrow> 'k mrp_attribute" where
  "fresh_attribute k =
     \<lparr>attribute = k,
      applicant = \<lparr>app_state = MRP_VO_STATE, app_tx = False, app_sndmsg = MRP_SND_NULL,
                   app_encode = MRP_ENCODE_OPTIONAL, app_previous_state = None\<rparr>,
      registrar = \<lparr>reg_state = MRP_MT_STATE, reg_notify = MRP_NOTIFY_NONE,
                   reg_macaddr = replicate 6 0\<rparr>\<rparr>"

section \<open>Driving the state machines of one attribute\<close>

definition attrib_applicant :: "int \<Rightarrow> mrp_event \<Rightarrow> 'k mrp_attribute \<Rightarrow> 'k mrp_attribute" where
  "attrib_applicant p2p event a =
     a\<lparr>applicant := snd (mrp_applicant_fsm p2p (applicant a) event (mrp_registrar_in (registrar a)))\<rparr>"

definition attrib_registrar ::
  "os \<Rightarrow> mrp_event \<Rightarrow> 'k mrp_attribute \<Rightarrow> mrp_database \<Rightarrow> world \<Rightarrow>
     'k mrp_attribute \<times> mrp_database \<times> world" where
  "attrib_registrar env event a db w =
     (let (_, r, db', w') = mrp_registrar_fsm env (registrar a) db event w
      in (a\<lparr>registrar := r\<rparr>, db', w'))"

text \<open>Local requests are remapped into registrar events.\<close>

definition attrib_event ::
  "os \<Rightarrow> mrp_event \<Rightarrow> 'k mrp_attribute \<Rightarrow> mrp_database \<Rightarrow> world \<Rightarrow>
     'k mrp_attribute \<times> mrp_database \<times> world" where
  "attrib_event env event a db w =
     (let a1 = attrib_applicant (p2pmac w) event a
      in case event of
           MRP_EVENT_NEW \<Rightarrow>
             (let (a2, db', w') = attrib_registrar env MRP_EVENT_BEGIN a1 db w
              in (a2\<lparr>registrar := (registrar a2)\<lparr>reg_notify := MRP_NOTIFY_NEW\<rparr>\<rparr>, db', w'))
         | MRP_EVENT_JOIN \<Rightarrow>
             (if reg_state (registrar a1) = MRP_IN_STATE
              then attrib_registrar env MRP_EVENT_RJOININ a1 db w
              else attrib_registrar env MRP_EVENT_RJOINMT a1 db w)
         | MRP_EVENT_LV \<Rightarrow> attrib_registrar env MRP_EVENT_RLV a1 db w
         | _ \<Rightarrow> attrib_registrar env event a1 db w)"

section \<open>Finding or storing the attribute an event is about\<close>

text \<open>
  The common part of the attribute events of the three applications. \<open>look\<close>, \<open>add\<close> and \<open>merge\<close>
  are the application's own operations: \<open>add\<close> returns the position it linked the new
  attribute at, \<open>merge\<close> copies what a received attribute says into the stored one. The
  result starts with the position of the attribute the event was applied to.
\<close>

definition attribs_event ::
  "('k mrp_attribute list \<Rightarrow> 'k mrp_attribute \<Rightarrow> nat option) \<Rightarrow>
   ('k mrp_attribute list \<Rightarrow> 'k mrp_attribute \<Rightarrow> nat \<times> 'k mrp_attribute list) \<Rightarrow>
   ('k mrp_attribute \<Rightarrow> 'k mrp_attribute \<Rightarrow> 'k mrp_attribute) \<Rightarrow>
   os \<Rightarrow> mrp_event \<Rightarrow> 'k mrp_attribute \<Rightarrow> 'k mrp_attribute list \<Rightarrow> mrp_database \<Rightarrow> world \<Rightarrow>
     nat \<times> 'k mrp_attribute list \<times> mrp_database \<times> world" where
  "attribs_event look add merge env event r as db w =
     (let (i, as1) = (case look as r of None \<Rightarrow> add as r | Some i \<Rightarrow> (i, as[i := merge r (as ! i)]));
          (a, db', w') = attrib_event env event (as1 ! i) db w
      in (i, as1[i := a], db', w'))"

section \<open>The loops over the attribute list\<close>

text \<open>LeaveAll, sent or received: Applicant, then Registrar, of every attribute concerned.\<close>

fun attribs_leaveall ::
  "os \<Rightarrow> mrp_event \<Rightarrow> ('k \<Rightarrow> bool) \<Rightarrow> 'k mrp_attribute list \<Rightarrow> mrp_database \<Rightarrow> world \<Rightarrow>
     'k mrp_attribute list \<times> mrp_database \<times> world" where
  "attribs_leaveall env event concerned [] db w = ([], db, w)"
| "attribs_leaveall env event concerned (a # as) db w =
     (if concerned (attribute a)
      then let (a', db1, w1) = attrib_registrar env event (attrib_applicant (p2pmac w) event a) db w;
               (as', db2, w2) = attribs_leaveall env event concerned as db1 w1
           in (a' # as', db2, w2)
      else let (as', db2, w2) = attribs_leaveall env event concerned as db w
           in (a # as', db2, w2))"

text \<open>The events that concern one attribute.\<close>

definition attrib_events :: "mrp_event set" where
  "attrib_events = {MRP_EVENT_NEW, MRP_EVENT_JOIN, MRP_EVENT_RNEW, MRP_EVENT_RJOININ,
     MRP_EVENT_RJOINMT, MRP_EVENT_LV, MRP_EVENT_RIN, MRP_EVENT_RMT, MRP_EVENT_RLV}"

text \<open>The Applicant of every attribute, for a transmission opportunity or the periodic timer.\<close>

definition attribs_applicant :: "int \<Rightarrow> mrp_event \<Rightarrow> 'k mrp_attribute list \<Rightarrow> 'k mrp_attribute list" where
  "attribs_applicant p2p event as = map (attrib_applicant p2p event) as"

definition tx_count :: "'k mrp_attribute list \<Rightarrow> nat" where
  "tx_count as = sum_list (map (\<lambda>a. mrp_applicant_state_transition_implies_tx (applicant a)) as)"

text \<open>An attribute nobody declares and nobody registers any more.\<close>

definition reclaimable :: "'k mrp_attribute \<Rightarrow> bool" where
  "reclaimable a \<longleftrightarrow> reg_state (registrar a) = MRP_MT_STATE \<and>
     app_state (applicant a) \<in> {MRP_VO_STATE, MRP_AO_STATE, MRP_QO_STATE}"

text \<open>
  Pending notifications are delivered and cleared. \<open>send\<close> is the application's own
  \<^verbatim>\<open>send_notifications\<close>.
\<close>

fun attribs_notify ::
  "('k mrp_attribute \<Rightarrow> mrp_notify \<Rightarrow> world \<Rightarrow> world) \<Rightarrow> 'k mrp_attribute list \<Rightarrow> world \<Rightarrow>
     'k mrp_attribute list \<times> world" where
  "attribs_notify send [] w = ([], w)"
| "attribs_notify send (a # as) w =
     (if reg_notify (registrar a) \<noteq> MRP_NOTIFY_NONE
      then let w1 = send a (reg_notify (registrar a)) w;
               (as', w2) = attribs_notify send as w1
           in (a\<lparr>registrar := (registrar a)\<lparr>reg_notify := MRP_NOTIFY_NONE\<rparr>\<rparr> # as', w2)
      else let (as', w2) = attribs_notify send as w in (a # as', w2))"

section \<open>Texts for local clients\<close>

definition BUFSIZE :: nat where "BUFSIZE = 128"

definition newline :: string where "newline = [CHR 0x0A]"

text \<open>The characters of a buffer up to the first null, as \<^verbatim>\<open>%s\<close> prints it.\<close>

definition c_string :: "string \<Rightarrow> string" where
  "c_string buf = takeWhile (\<lambda>c. c \<noteq> CHR 0x00) buf"

text \<open>
  The lines are written one after the other into a buffer of \<^verbatim>\<open>MAX_MRPD_CMDSZ\<close> bytes, each
  with its terminating null; the size \<open>lim\<close> passed to \<^verbatim>\<open>snprintf\<close> does not depend on what is
  left. \<open>None\<close> is a write past the end of the buffer.
\<close>

fun mrp_dump_lines :: "nat \<Rightarrow> nat \<Rightarrow> string \<Rightarrow> string list \<Rightarrow> string option" where
  "mrp_dump_lines lim off text [] = Some text"
| "mrp_dump_lines lim off text (stage # ls) =
     (if MAX_MRPD_CMDSZ < off + length (snprintf lim stage) + 1 then None
      else mrp_dump_lines lim (off + min (length stage) 128) (text @ snprintf lim stage) ls)"

definition respond :: "os \<Rightarrow> sockaddr_in \<Rightarrow> nat \<Rightarrow> string \<Rightarrow> world \<Rightarrow> world" where
  "respond env client len msg w =
     snd (mrpd_send_ctl_msg env client (snprintf (len - 1) msg) len w)"

text \<open>One message to every client of the database.\<close>

fun send_to_clients :: "os \<Rightarrow> sockaddr_in list \<Rightarrow> string \<Rightarrow> world \<Rightarrow> world" where
  "send_to_clients env [] msg w = w"
| "send_to_clients env (c # cs) msg w =
     send_to_clients env cs msg (snd (mrpd_send_ctl_msg env c msg MAX_MRPD_CMDSZ w))"

text \<open>
  The buffers of a notification: \<open>None\<close> when the message buffer cannot be allocated (the
  function returns \<open>-1\<close>), otherwise whether both string buffers could be.
\<close>

definition alloc_notify_bufs :: "os \<Rightarrow> world \<Rightarrow> bool option \<times> world" where
  "alloc_notify_bufs env w =
     (let (ok, w1) = malloc env MAX_MRPD_CMDSZ w
      in if \<not> ok then (None, w1)
         else let (ok_variant, w2) = malloc env BUFSIZE w1;
                  (ok_regsrc, w3) = malloc env BUFSIZE w2
              in (Some (ok_variant \<and> ok_regsrc), w3))"

section \<open>Lemmas: keys, declarations and registrations are touched by the machines only\<close>

lemma attribute_attrib_applicant [simp]: "attribute (attrib_applicant p2p e a) = attribute a"
  by (simp add: attrib_applicant_def)

lemma registrar_attrib_applicant [simp]: "registrar (attrib_applicant p2p e a) = registrar a"
  by (simp add: attrib_applicant_def)

lemma attribute_attrib_registrar [simp]: "attribute (fst (attrib_registrar env e a db w)) = attribute a"
  by (simp add: attrib_registrar_def split: prod.splits)

lemma applicant_attrib_registrar [simp]: "applicant (fst (attrib_registrar env e a db w)) = applicant a"
  by (simp add: attrib_registrar_def split: prod.splits)

lemma attribute_attrib_event [simp]: "attribute (fst (attrib_event env e a db w)) = attribute a"
  by (simp add: attrib_event_def Let_def case_prod_unfold split: mrp_event.splits)

lemma keys_attribs_leaveall [simp]:
  "map attribute (fst (attribs_leaveall env e c as db w)) = map attribute as"
  by (induction as arbitrary: db w) (auto simp: Let_def case_prod_unfold)

lemma keys_attribs_applicant [simp]: "map attribute (attribs_applicant p2p e as) = map attribute as"
  by (simp add: attribs_applicant_def comp_def)

lemma keys_attribs_notify [simp]: "map attribute (fst (attribs_notify send as w)) = map attribute as"
  by (induction as arbitrary: w) (auto simp: Let_def case_prod_unfold)

lemma attribs_notify_cleared:
  "a \<in> set (fst (attribs_notify send as w)) \<Longrightarrow> reg_notify (registrar a) = MRP_NOTIFY_NONE"
  by (induction as arbitrary: w) (auto simp: Let_def case_prod_unfold split: if_splits)

lemma attribs_notify_states:
  "map (\<lambda>a. (attribute a, applicant a, reg_state (registrar a))) (fst (attribs_notify send as w)) =
   map (\<lambda>a. (attribute a, applicant a, reg_state (registrar a))) as"
  by (induction as arbitrary: w) (auto simp: Let_def case_prod_unfold)

section \<open>Lemmas: the table a client asks for\<close>

text \<open>The Registrar stores an Ethernet address.\<close>

definition macs_6 :: "'k mrp_attribute list \<Rightarrow> bool" where
  "macs_6 as \<longleftrightarrow> (\<forall>a \<in> set as. length (reg_macaddr (registrar a)) = 6)"

lemma length_state_names:
  "length (registrar_state_name r) = 2" "length (applicant_state_name a) = 2"
  by (cases r; simp) (cases a; simp)

lemma length_fmt_hex_bytes: "length (fmt_hex_bytes bs) = 2 * length bs"
  by (induction bs) (auto simp: fmt_hex_bytes_def)

text \<open>Lines of equal length overflow the message buffer when there are too many of them.\<close>

lemma mrp_dump_lines_None:
  assumes "\<forall>l \<in> set ls. length l = n" "n < lim" "n \<le> 128"
  shows "mrp_dump_lines lim off t ls = None \<longleftrightarrow> ls \<noteq> [] \<and> MAX_MRPD_CMDSZ \<le> off + n * length ls"
  using assms(1)
proof (induction ls arbitrary: off t)
  case (Cons l ls)
  have n: "length l = n" "length (snprintf lim l) = n" "min (length l) 128 = n"
    using Cons.prems assms(2,3) by (auto simp: snprintf_def)
  have IH: "mrp_dump_lines lim (off + n) t' ls = None \<longleftrightarrow> ls \<noteq> [] \<and> MAX_MRPD_CMDSZ \<le> off + n + n * length ls" for t'
    using Cons.IH [of "off + n"] Cons.prems by simp
  show ?case
    unfolding mrp_dump_lines.simps n(2,3) using IH by (cases ls) auto
qed simp

end
