(* ===== verification/Mrpdu.thy ===== *)
theory Mrpdu
  imports Mrp_App "HOL-Library.Sublist"
begin

text \<open>
  The MRPDU wire format: packed vector events, vector headers, and the routine that turns
  the transmit flags of an attribute list into vectors. The \<^verbatim>\<open>emit\<close> functions of the three
  applications are copies of one routine; they differ in the attribute type, the first value
  and a few constants. The routine is written once here over a record of these
  differences, and each application instantiates it.
\<close>

section \<open>Constants and packing (mrp.h)\<close>

definition MRPDU_NEW :: nat where "MRPDU_NEW = 0"
definition MRPDU_JOININ :: nat where "MRPDU_JOININ = 1"
definition MRPDU_IN :: nat where "MRPDU_IN = 2"
definition MRPDU_JOINMT :: nat where "MRPDU_JOINMT = 3"
definition MRPDU_MT :: nat where "MRPDU_MT = 4"
definition MRPDU_LV :: nat where "MRPDU_LV = 5"

lemmas mrpdu_codes = MRPDU_NEW_def MRPDU_JOININ_def MRPDU_IN_def MRPDU_JOINMT_def MRPDU_MT_def MRPDU_LV_def

definition MRPDU_3PACK_ENCODE :: "nat \<Rightarrow> nat \<Rightarrow> nat \<Rightarrow> byte" where
  "MRPDU_3PACK_ENCODE x y z = word_of_nat ((x * 6 + y) * 6 + z)"

text \<open>The three divisions every receive loop makes on a vector byte.\<close>

definition unpack3 :: "byte \<Rightarrow> nat list" where
  "unpack3 vect_3pack =
     (let v = unat vect_3pack; e0 = v div 36; e1 = (v - e0 * 36) div 6
      in [e0, e1, v - 36 * e0 - 6 * e1])"

definition MRPDU_VECT_NUMVALUES :: "u16 \<Rightarrow> u16" where
  "MRPDU_VECT_NUMVALUES x = x AND 0x1fff"

definition MRPDU_VECT_LVA :: "u16 \<Rightarrow> bool" where
  "MRPDU_VECT_LVA x \<longleftrightarrow> x AND 0xe000 = 0x2000"

definition MRPDU_VECT_LVA_FLAG :: u16 where "MRPDU_VECT_LVA_FLAG = 0x2000"

text \<open>The event a received vector event stands for; other codes are ignored.\<close>

definition mrpdu_event :: "nat \<Rightarrow> mrp_event option" where
  "mrpdu_event e =
     (if e = MRPDU_NEW then Some MRP_EVENT_RNEW
      else if e = MRPDU_JOININ then Some MRP_EVENT_RJOININ
      else if e = MRPDU_IN then Some MRP_EVENT_RIN
      else if e = MRPDU_JOINMT then Some MRP_EVENT_RJOINMT
      else if e = MRPDU_MT then Some MRP_EVENT_RMT
      else if e = MRPDU_LV then Some MRP_EVENT_RLV
      else None)"

section \<open>Transmission\<close>

text \<open>
  The event an attribute contributes, from the message its Applicant wants and the state of
  a Registrar. \<open>None\<close> is the \<^verbatim>\<open>default\<close> case, an internal error.
\<close>

fun vect_evt :: "mrp_sndmsg \<Rightarrow> registrar_state \<Rightarrow> nat option" where
  "vect_evt MRP_SND_IN r = Some (if r = MRP_IN_STATE then MRPDU_IN else MRPDU_MT)"
| "vect_evt MRP_SND_NEW r = Some MRPDU_NEW"
| "vect_evt MRP_SND_LV r = Some MRPDU_LV"
| "vect_evt MRP_SND_JOIN r = Some (if r = MRP_IN_STATE then MRPDU_JOININ else MRPDU_JOINMT)"
| "vect_evt _ r = None"

text \<open>What distinguishes the copies of the routine.\<close>

record 'k emit_params =
  em_match :: "'k \<Rightarrow> bool"            \<comment> \<open>attributes of the type emitted\<close>
  em_type :: byte
  em_length :: byte
  em_data :: nat                     \<comment> \<open>offset of the first vector in the message\<close>
  em_vector_size :: nat
  em_first :: "'k \<Rightarrow> bytes"           \<comment> \<open>the FirstValue bytes\<close>
  em_vectidx :: nat                  \<comment> \<open>where the vector events start\<close>
  em_succ :: "'k \<Rightarrow> 'k"               \<comment> \<open>the next value a vector may continue with\<close>
  em_same :: "'k \<Rightarrow> 'k \<Rightarrow> bool"
  em_slack :: nat                    \<comment> \<open>bytes kept free while a vector grows\<close>
  em_pad :: "'k \<Rightarrow> nat \<times> nat"        \<comment> \<open>contents of vectevt[1] and vectevt[2] when a vector starts\<close>
  em_join_first :: bool              \<comment> \<open>Join consults the Registrar of the vector's first attribute\<close>
  em_keep_lva :: bool                \<comment> \<open>the LeaveAll flag goes into every vector\<close>

definition clear_tx :: "'k mrp_attribute \<Rightarrow> 'k mrp_attribute" where
  "clear_tx a = a\<lparr>applicant := (applicant a)\<lparr>app_tx := False\<rparr>\<rparr>"

definition inner_evt :: "('k, 'z) emit_params_scheme \<Rightarrow> registrar_state \<Rightarrow> 'k mrp_attribute \<Rightarrow> nat option" where
  "inner_evt es first_reg v =
     vect_evt (app_sndmsg (applicant v))
       (if em_join_first es \<and> app_sndmsg (applicant v) = MRP_SND_JOIN then first_reg
        else reg_state (registrar v))"

text \<open>The state of a vector under construction: buffer, vectidx, vectevt, vectevt_idx, numvalues.\<close>

type_synonym vector_state = "bytes \<times> nat \<times> nat list \<times> nat \<times> nat"

definition push_evt :: "nat \<Rightarrow> nat \<Rightarrow> vector_state \<Rightarrow> vector_state option" where
  "push_evt vp e st =
     (case st of (buf, vectidx, vectevt, vectevt_idx, numvalues) \<Rightarrow>
        let vectevt = vectevt[vectevt_idx := e]
        in if Suc vectevt_idx > 2
           then map_option (\<lambda>buf'. (buf', Suc vectidx, [0, 0, 0], 0, Suc numvalues))
                  (wr buf (vp + 2 + vectidx)
                     (MRPDU_3PACK_ENCODE (vectevt ! 0) (vectevt ! 1) (vectevt ! 2)))
           else Some (buf, vectidx, vectevt, Suc vectevt_idx, Suc numvalues))"

text \<open>The loop that extends a vector over the attributes that follow.\<close>

fun emit_inner ::
  "('k, 'z) emit_params_scheme \<Rightarrow> registrar_state \<Rightarrow> nat \<Rightarrow> nat \<Rightarrow> 'k \<Rightarrow> vector_state \<Rightarrow>
     'k mrp_attribute list \<Rightarrow> vector_state flow \<times> 'k mrp_attribute list" where
  "emit_inner es first_reg eof vp firstval st [] = (Next st, [])"
| "emit_inner es first_reg eof vp firstval st (v # vs) =
     (if \<not> em_match es (attribute v) then (Next st, v # vs)
      else if \<not> app_tx (applicant v) then (Next st, v # vs)
      else let firstval' = em_succ es firstval
      in if \<not> em_same es firstval' (attribute v) then (Next st, v # vs)
      else case inner_evt es first_reg v of
             None \<Rightarrow> (Goto, clear_tx v # vs)
           | Some e \<Rightarrow>
               (case push_evt vp e st of
                  None \<Rightarrow> (Fault, clear_tx v # vs)
                | Some st' \<Rightarrow>
                    if eof < vp + 2 + fst (snd st') + em_slack es then (Goto, clear_tx v # vs)
                    else let (r, vs') = emit_inner es first_reg eof vp firstval' st' vs
                         in (r, clear_tx v # vs')))"

text \<open>Trailing events that do not fill a byte.\<close>

definition emit_trailer :: "nat \<Rightarrow> vector_state \<Rightarrow> (bytes \<times> nat) option" where
  "emit_trailer vp st =
     (case st of (buf, vectidx, vectevt, vectevt_idx, numvalues) \<Rightarrow>
        if vectevt_idx > 0
        then map_option (\<lambda>buf'. (buf', Suc vectidx))
               (wr buf (vp + 2 + vectidx)
                  (MRPDU_3PACK_ENCODE (vectevt ! 0) (vectevt ! 1) (vectevt ! 2)))
        else Some (buf, vectidx))"

definition vect_header :: "bool \<Rightarrow> nat \<Rightarrow> u16" where
  "vect_header lv_all numvalues =
     MRPDU_VECT_NUMVALUES (word_of_nat numvalues) OR (if lv_all then MRPDU_VECT_LVA_FLAG else 0)"

text \<open>One vector, started by the attribute \<open>a\<close>: the offset of the next vector.\<close>

definition emit_vector ::
  "('k, 'z) emit_params_scheme \<Rightarrow> nat \<Rightarrow> bool \<Rightarrow> nat \<Rightarrow> bytes \<Rightarrow> 'k mrp_attribute \<Rightarrow>
     'k mrp_attribute list \<Rightarrow> (bytes \<times> nat) flow \<times> 'k mrp_attribute list" where
  "emit_vector es eof lv_all vp buf a as =
     (case wr_bytes buf (vp + 2) (em_first es (attribute a)) of
        None \<Rightarrow> (Fault, as)
      | Some buf1 \<Rightarrow>
     (case vect_evt (app_sndmsg (applicant a)) (reg_state (registrar a)) of
        None \<Rightarrow> (Goto, as)
      | Some e \<Rightarrow>
     (case emit_inner es (reg_state (registrar a)) eof vp (attribute a)
             (buf1, em_vectidx es, [e, fst (em_pad es (attribute a)), snd (em_pad es (attribute a))], 1, 1) as of
        (Goto, as') \<Rightarrow> (Goto, as')
      | (Fault, as') \<Rightarrow> (Fault, as')
      | (Next st, as') \<Rightarrow>
     (case emit_trailer vp st of
        None \<Rightarrow> (Fault, as')
      | Some (buf2, vectidx) \<Rightarrow>
          if eof < vp + 2 + vectidx + 2 then (Goto, as')
          else let h = vect_header lv_all (snd (snd (snd (snd st))))
               in case wr_bytes buf2 vp [hi8 h, lo8 h] of
                    None \<Rightarrow> (Fault, as')
                  | Some buf3 \<Rightarrow> (Next (buf3, vp + 2 + vectidx), as')))))"

lemma emit_inner_length: "length (snd (emit_inner es fr eof vp k st vs)) = length vs"
  by (induction es fr eof vp k st vs rule: emit_inner.induct)
     (auto simp: Let_def case_prod_unfold split: option.splits)

lemma emit_vector_length: "length (snd (emit_vector es eof lv_all vp buf a as)) = length as"
  using emit_inner_length [of es "reg_state (registrar a)" eof vp "attribute a" _ as]
  by (auto simp: emit_vector_def Let_def split: option.splits flow.splits prod.splits)
     (metis snd_conv)+

lemma emit_vector_length': "(r, as') = emit_vector es eof lv_all vp buf a as \<Longrightarrow> length as' = length as"
  by (metis emit_vector_length snd_conv)

text \<open>
  The loop over the attributes: \<open>ptr\<close> is where the message may continue, \<open>vp\<close> the vector to
  write next (they differ before the first vector only) and \<open>found\<close> the flag that an
  attribute was sent.
\<close>

function emit_loop ::
  "('k, 'z) emit_params_scheme \<Rightarrow> nat \<Rightarrow> bool \<Rightarrow> nat \<Rightarrow> nat \<Rightarrow> bytes \<Rightarrow> bool \<Rightarrow>
     'k mrp_attribute list \<Rightarrow> (bytes \<times> nat \<times> nat \<times> bool) flow \<times> 'k mrp_attribute list" where
  "emit_loop es eof lv_all ptr vp buf found [] = (Next (buf, ptr, vp, found), [])"
| "emit_loop es eof lv_all ptr vp buf found (a # as) =
     (if \<not> ptr + em_vector_size es + 2 < eof then (Next (buf, ptr, vp, found), a # as)
      else if \<not> em_match es (attribute a) \<or> \<not> app_tx (applicant a)
      then let (r, as') = emit_loop es eof lv_all ptr vp buf found as in (r, a # as')
      else if app_encode (applicant a) = MRP_ENCODE_OPTIONAL
      then let (r, as') = emit_loop es eof lv_all ptr vp buf found as in (r, clear_tx a # as')
      else case emit_vector es eof lv_all vp buf a as of
             (Goto, as') \<Rightarrow> (Goto, clear_tx a # as')
           | (Fault, as') \<Rightarrow> (Fault, clear_tx a # as')
           | (Next (buf', vp'), as') \<Rightarrow>
               let (r, as'') = emit_loop es eof (lv_all \<and> em_keep_lva es) vp' vp' buf' True as'
               in (r, clear_tx a # as''))"
  by pat_completeness auto
termination
proof (relation "measure (\<lambda>(_, _, _, _, _, _, _, as). length as)", goal_cases)
  case 1
  show ?case by simp
next
  case 2
  then show ?case by simp
next
  case 3
  then show ?case by simp
next
  case (4 es eof lv_all ptr vp buf found a as)
  then show ?case by (auto dest: emit_vector_length')
qed

text \<open>
  The whole routine on the message at offset \<open>p0\<close>: \<open>Next (buffer, bytes_used)\<close> with return
  value 0, or \<open>Goto\<close> for the label \<^verbatim>\<open>oops\<close> (no bytes used, return value -1).
\<close>

definition emit_message ::
  "('k, 'z) emit_params_scheme \<Rightarrow> bytes \<Rightarrow> nat \<Rightarrow> nat \<Rightarrow> bool \<Rightarrow> bool \<Rightarrow>
     'k mrp_attribute list \<Rightarrow> (bytes \<times> nat) flow \<times> 'k mrp_attribute list" where
  "emit_message es buf p0 eof lv_all send_empty as =
     (if eof < p0 + em_vector_size es then (Goto, as)
      else case wr_bytes buf p0 [em_type es, em_length es] of
        None \<Rightarrow> (Fault, as)
      | Some buf0 \<Rightarrow>
     (case emit_loop es eof lv_all p0 (p0 + em_data es) buf0 False as of
        (Goto, as') \<Rightarrow> (Goto, as')
      | (Fault, as') \<Rightarrow> (Fault, as')
      | (Next (buf1, ptr, vp, found), as') \<Rightarrow>
     (case (if \<not> found \<and> send_empty
            then map_option (\<lambda>b. (b, vp + 2 + unat (em_length es), vp + 2 + unat (em_length es)))
                   (wr_bytes buf1 vp [hi8 (vect_header True 0), lo8 (vect_header True 0)])
            else Some (buf1, ptr, vp)) of
        None \<Rightarrow> (Fault, as')
      | Some (buf2, ptr, vp) \<Rightarrow>
          if vp = p0 + em_data es then (Next (buf2, 0), as')
          else (case wr_bytes buf2 ptr [0, 0] of
                  None \<Rightarrow> (Fault, as')
                | Some buf3 \<Rightarrow> (Next (buf3, ptr + 2 - p0), as')))))"

section \<open>Frames\<close>

text \<open>The frame buffer with Ethernet header and protocol version, zero after that.\<close>

definition mrp_frame_header :: "bytes \<Rightarrow> bytes \<Rightarrow> u16 \<Rightarrow> byte \<Rightarrow> bytes" where
  "mrp_frame_header dest src etype version =
     take 6 (dest @ replicate 6 0) @ take 6 (src @ replicate 6 0) @ [hi8 etype, lo8 etype, version]"

definition mrp_frame_buffer :: "bytes \<Rightarrow> bytes \<Rightarrow> u16 \<Rightarrow> byte \<Rightarrow> bytes" where
  "mrp_frame_buffer dest src etype version =
     mrp_frame_header dest src etype version @ replicate (MAX_FRAME_SIZE - 15) 0"

definition lva_consume :: "mrp_database \<Rightarrow> mrp_database" where
  "lva_consume db = (if lva_tx (lva db) then db\<lparr>lva := (lva db)\<lparr>lva_tx := False\<rparr>\<rparr> else db)"

section \<open>Reception\<close>

text \<open>
  The two nested loops over the event bytes of a vector. \<open>step\<close> is what the application does
  with one event; a \<^verbatim>\<open>goto out\<close> in it ends both loops, and the state reached is
  kept. The outer loop runs \<open>n\<close> times from offset \<open>pos\<close>.
\<close>

fun recv_evts :: "(nat \<Rightarrow> 's \<Rightarrow> unit flow \<times> 's) \<Rightarrow> nat list \<Rightarrow> 's \<Rightarrow> unit flow \<times> 's" where
  "recv_evts step [] s = (Next (), s)"
| "recv_evts step (e # evs) s =
     (case step e s of
        (Next _, s') \<Rightarrow> recv_evts step evs s'
      | (Goto, s') \<Rightarrow> (Goto, s')
      | (Fault, s') \<Rightarrow> (Fault, s'))"

fun recv_vector ::
  "(nat \<Rightarrow> 's \<Rightarrow> unit flow \<times> 's) \<Rightarrow> bytes \<Rightarrow> nat \<Rightarrow> nat \<Rightarrow> nat \<Rightarrow> 's \<Rightarrow> unit flow \<times> 's" where
  "recv_vector step buf pos 0 numvalues s = (Next (), s)"
| "recv_vector step buf pos (Suc n) numvalues s =
     (case rd buf pos of
        None \<Rightarrow> (Fault, s)
      | Some vect_3pack \<Rightarrow>
          let numvalues_processed = (if numvalues > 3 then 3 else numvalues)
          in case recv_evts step (take numvalues_processed (unpack3 vect_3pack)) s of
               (Next _, s') \<Rightarrow> recv_vector step buf (Suc pos) n (numvalues - numvalues_processed) s'
             | (Goto, s') \<Rightarrow> (Goto, s')
             | (Fault, s') \<Rightarrow> (Fault, s'))"

text \<open>\<^verbatim>\<open>numvectorbytes\<close>, with the division written as the source has it.\<close>

definition numvectorbytes :: "nat \<Rightarrow> nat" where
  "numvectorbytes numvalues =
     (if numvalues \<noteq> numvalues div 3 * 3 then numvalues div 3 + 1 else numvalues div 3)"

section \<open>Specification: the vectors a message carries\<close>

text \<open>Three events per byte, the last byte padded with zeros.\<close>

fun pack3 :: "nat list \<Rightarrow> bytes" where
  "pack3 [] = []"
| "pack3 [a] = [MRPDU_3PACK_ENCODE a 0 0]"
| "pack3 [a, b] = [MRPDU_3PACK_ENCODE a b 0]"
| "pack3 (a # b # c # es) = MRPDU_3PACK_ENCODE a b c # pack3 es"

text \<open>A vector: its first value and its events. Its bytes, and the bytes of a sequence of them.\<close>

definition vector_bytes :: "('k, 'z) emit_params_scheme \<Rightarrow> bool \<Rightarrow> 'k \<times> nat list \<Rightarrow> bytes" where
  "vector_bytes es lv_all v =
     (case v of (k, evs) \<Rightarrow>
        let h = vect_header lv_all (length evs) in [hi8 h, lo8 h] @ em_first es k @ pack3 evs)"

fun vectors_bytes :: "('k, 'z) emit_params_scheme \<Rightarrow> bool \<Rightarrow> ('k \<times> nat list) list \<Rightarrow> bytes" where
  "vectors_bytes es lv_all [] = []"
| "vectors_bytes es lv_all (v # vs) =
     vector_bytes es lv_all v @ vectors_bytes es (lv_all \<and> em_keep_lva es) vs"

text \<open>The attribute values a vector covers, with their events.\<close>

fun vector_values :: "('k \<Rightarrow> 'k) \<Rightarrow> 'k \<Rightarrow> nat list \<Rightarrow> ('k \<times> nat) list" where
  "vector_values nxt k [] = []"
| "vector_values nxt k (e # evs) = (k, e) # vector_values nxt (nxt k) evs"

definition vectors_values :: "('k \<Rightarrow> 'k) \<Rightarrow> ('k \<times> nat list) list \<Rightarrow> ('k \<times> nat) list" where
  "vectors_values nxt vs = concat (map (\<lambda>(k, evs). vector_values nxt k evs) vs)"

text \<open>
  The routine is regular when the padding is clean, the events follow the first value, a
  value continues a vector only if it is the successor, and Join consults the attribute's
  own Registrar.
\<close>

definition emit_regular :: "('k, 'z) emit_params_scheme \<Rightarrow> bool" where
  "emit_regular es \<longleftrightarrow> em_pad es = (\<lambda>_. (0, 0)) \<and> (\<forall>k. length (em_first es k) = em_vectidx es) \<and>
     em_same es = (=) \<and> \<not> em_join_first es"

text \<open>Every attribute flagged for transmission asks for a message that can be encoded.\<close>

definition sendable :: "'k mrp_attribute \<Rightarrow> bool" where
  "sendable a \<longleftrightarrow> (app_tx (applicant a) \<longrightarrow>
     app_sndmsg (applicant a) \<in> {MRP_SND_IN, MRP_SND_NEW, MRP_SND_LV, MRP_SND_JOIN})"

definition value_event :: "'k mrp_attribute \<Rightarrow> 'k \<times> nat" where
  "value_event a = (attribute a, the (vect_evt (app_sndmsg (applicant a)) (reg_state (registrar a))))"

section \<open>Lemmas on packing and headers\<close>

lemma unpack3_encode:
  assumes "a < 6" "b < 6" "c < 6"
  shows "unpack3 (MRPDU_3PACK_ENCODE a b c) = [a, b, c]"
proof -
  have small: "(a * 6 + b) * 6 + c < 256" using assms by simp
  then have u: "unat (word_of_nat ((a * 6 + b) * 6 + c) :: byte) = (a * 6 + b) * 6 + c"
    by (rule unat_byte_of_nat)
  have e0: "((a * 6 + b) * 6 + c) div 36 = a"
    using assms by (intro div_nat_eqI) auto
  have e1: "((a * 6 + b) * 6 + c - a * 36) div 6 = b"
    using assms by (intro div_nat_eqI) auto
  show ?thesis
    by (simp only: unpack3_def MRPDU_3PACK_ENCODE_def u e0 e1 Let_def) simp
qed

lemma length_pack3: "length (pack3 evs) = (length evs + 2) div 3"
  by (induction evs rule: pack3.induct) auto

lemma pack3_append3: "length p = 3 \<Longrightarrow> pack3 (p @ evs) = MRPDU_3PACK_ENCODE (p ! 0) (p ! 1) (p ! 2) # pack3 evs"
  by (auto simp: length_Suc_conv numeral_3_eq_3)

lemma vect_header_numvalues:
  assumes "n < 8192"
  shows "unat (MRPDU_VECT_NUMVALUES (vect_header lv_all n)) = n"
proof -
  have m: "(0x1fff :: u16) = mask 13" by (simp add: mask_eq_exp_minus_1)
  have f: "MRPDU_VECT_LVA_FLAG AND mask 13 = (0 :: u16)"
    by (simp add: MRPDU_VECT_LVA_FLAG_def mask_eq_exp_minus_1)
  have "MRPDU_VECT_NUMVALUES (vect_header lv_all n) = word_of_nat n AND mask 13"
    unfolding MRPDU_VECT_NUMVALUES_def vect_header_def m
    by (cases lv_all) (simp_all add: bit.conj_disj_distrib2 f and.assoc)
  also have "\<dots> = take_bit 13 (word_of_nat n)" by (simp only: take_bit_eq_mask)
  also have "\<dots> = (word_of_nat n :: u16)"
  proof -
    have "take_bit 13 (word_of_nat n :: u16) = word_of_nat (take_bit 13 n)"
      by (simp only: take_bit_of_nat [symmetric] of_nat_take_bit)
    moreover have "take_bit 13 n = n" using assms by (simp add: take_bit_nat_eq_self)
    ultimately show ?thesis by simp
  qed
  finally show ?thesis using assms by (simp add: unat_of_nat)
qed

lemma vect_header_lva [simp]: "MRPDU_VECT_LVA (vect_header lv_all n) = lv_all"
proof -
  have e: "(0x1fff AND 0xe000 :: u16) = 0" by simp
  have "(word_of_nat n AND 0x1fff) AND (0xe000 :: u16) = 0"
    by (simp only: and.assoc e) simp
  then show ?thesis
    unfolding MRPDU_VECT_LVA_def vect_header_def MRPDU_VECT_NUMVALUES_def MRPDU_VECT_LVA_FLAG_def
    by (cases lv_all) (simp_all add: bit.conj_disj_distrib2)
qed

lemma vect_header_nonzero: "lv_all \<or> 0 < n \<Longrightarrow> n < 8192 \<Longrightarrow> vect_header lv_all n \<noteq> 0"
  using vect_header_numvalues [of n lv_all] vect_header_lva [of lv_all n]
  by (auto simp: MRPDU_VECT_NUMVALUES_def MRPDU_VECT_LVA_def)

lemma be16_zero_iff: "be16 h l = 0 \<longleftrightarrow> h = 0 \<and> l = 0"
proof
  assume "be16 h l = 0"
  then have "hi8 (be16 h l) = 0" "lo8 (be16 h l) = 0" by (simp_all add: hi8_def lo8_def)
  then show "h = 0 \<and> l = 0" by simp
qed (simp add: be16_def)

lemma vect_evt_less: "vect_evt m r = Some e \<Longrightarrow> e < 6"
  by (cases m) (auto simp: mrpdu_codes split: if_splits)

lemma vect_evt_sendable:
  "m \<in> {MRP_SND_IN, MRP_SND_NEW, MRP_SND_LV, MRP_SND_JOIN} \<Longrightarrow> \<exists>e. vect_evt m r = Some e"
  by auto

lemma clear_tx_simps [simp]:
  "attribute (clear_tx a) = attribute a" "registrar (clear_tx a) = registrar a"
  "app_tx (applicant (clear_tx a)) = False" "app_state (applicant (clear_tx a)) = app_state (applicant a)"
  "clear_tx (clear_tx a) = clear_tx a" "sendable (clear_tx a)"
  by (simp_all add: clear_tx_def sendable_def)

section \<open>Lemmas on transmission: what is written\<close>

text \<open>The pending events of a vector under construction, padded with zeros.\<close>

definition pending :: "nat list \<Rightarrow> nat \<Rightarrow> nat list \<Rightarrow> bool" where
  "pending vectevt idx p \<longleftrightarrow> idx < 3 \<and> length p = idx \<and> vectevt = p @ replicate (3 - idx) 0"

lemma pending_cases:
  assumes "pending vectevt idx p"
  obtains "p = []" "idx = 0" "vectevt = [0, 0, 0]"
  | a where "p = [a]" "idx = 1" "vectevt = [a, 0, 0]"
  | a b where "p = [a, b]" "idx = 2" "vectevt = [a, b, 0]"
proof -
  from assms have "length p = 0 \<or> length p = 1 \<or> length p = 2"
    unfolding pending_def by linarith
  then show thesis
    using assms that by (auto simp: pending_def length_Suc_conv numeral_2_eq_2 numeral_3_eq_3)
qed

lemma emit_trailer_pending:
  assumes "pending vectevt idx p"
  shows "emit_trailer vp (buf, vectidx, vectevt, idx, n) =
    map_option (\<lambda>b. (b, vectidx + length (pack3 p))) (wr_bytes buf (vp + 2 + vectidx) (pack3 p))"
  using assms by (rule pending_cases) (auto simp: emit_trailer_def split: option.splits)

lemma push_evt_pending:
  assumes "pending vectevt idx p" and "push_evt vp e (buf, vectidx, vectevt, idx, n) = Some st"
  obtains buf' vectidx' vectevt' idx' p' where
    "st = (buf', vectidx', vectevt', idx', Suc n)" "pending vectevt' idx' p'"
    "\<And>evs. map_option (\<lambda>b. (b, vectidx' + length (pack3 (p' @ evs))))
             (wr_bytes buf' (vp + 2 + vectidx') (pack3 (p' @ evs))) =
           map_option (\<lambda>b. (b, vectidx + length (pack3 (p @ e # evs))))
             (wr_bytes buf (vp + 2 + vectidx) (pack3 (p @ e # evs)))"
  using assms(1)
proof (cases rule: pending_cases)
  case 1
  then show thesis
    using assms(2) that [of buf vectidx "[e, 0, 0]" 1 "[e]"] by (auto simp: push_evt_def pending_def numeral_2_eq_2 numeral_3_eq_3)
next
  case (2 a)
  then show thesis
    using assms(2) that [of buf vectidx "[a, e, 0]" 2 "[a, e]"]
    by (auto simp: push_evt_def pending_def numeral_2_eq_2 numeral_3_eq_3)
next
  case (3 a b)
  then obtain buf' where "wr buf (vp + 2 + vectidx) (MRPDU_3PACK_ENCODE a b e) = Some buf'"
    "st = (buf', Suc vectidx, [0, 0, 0], 0, Suc n)"
    using assms(2) by (auto simp: push_evt_def)
  with 3 show thesis
    using that [of buf' "Suc vectidx" "[0, 0, 0]" 0 "[]"] by (auto simp: pending_def numeral_3_eq_3 wr_def split: if_splits)
qed

lemma inner_evt_regular:
  "emit_regular es \<Longrightarrow> inner_evt es fr v = vect_evt (app_sndmsg (applicant v)) (reg_state (registrar v))"
  by (simp add: inner_evt_def emit_regular_def)

lemma emit_inner_spec:
  assumes "emit_regular es" and "pending vectevt idx p"
    and "emit_inner es fr eof vp k (buf, vectidx, vectevt, idx, n) vs = (Next st, vs')"
  shows "\<exists>sent rest evs. vs = sent @ rest \<and> vs' = map clear_tx sent @ rest \<and>
    (\<forall>v \<in> set sent. em_match es (attribute v) \<and> app_tx (applicant v)) \<and>
    vector_values (em_succ es) (em_succ es k) evs = map value_event sent \<and>
    (\<forall>e \<in> set evs. e < 6) \<and> snd (snd (snd (snd st))) = n + length evs \<and>
    emit_trailer vp st =
      map_option (\<lambda>b. (b, vectidx + length (pack3 (p @ evs)))) (wr_bytes buf (vp + 2 + vectidx) (pack3 (p @ evs)))"
  using assms(2,3)
proof (induction vs arbitrary: k buf vectidx vectevt idx n p vs')
  case Nil
  then show ?case by (intro exI [of _ "[]"]) (auto simp: emit_trailer_pending)
next
  case (Cons v vs)
  show ?case
  proof (cases "em_match es (attribute v) \<and> app_tx (applicant v) \<and> em_same es (em_succ es k) (attribute v)")
    case False
    then have "st = (buf, vectidx, vectevt, idx, n)" "vs' = v # vs"
      using Cons.prems(2) by (auto split: if_splits)
    then show ?thesis
      using Cons.prems(1) by (intro exI [of _ "[]"] exI [of _ "v # vs"]) (auto simp: emit_trailer_pending)
  next
    case True
    then have key: "em_succ es k = attribute v" using assms(1) by (simp add: emit_regular_def)
    from True Cons.prems(2) obtain e st1 vs1 where
      e: "inner_evt es fr v = Some e" and p: "push_evt vp e (buf, vectidx, vectevt, idx, n) = Some st1"
      and i: "emit_inner es fr eof vp (em_succ es k) st1 vs = (Next st, vs1)" and vs': "vs' = clear_tx v # vs1"
      by (auto simp: Let_def split: option.splits if_splits prod.splits)
    from push_evt_pending [OF Cons.prems(1) p] obtain buf1 vectidx1 vectevt1 idx1 p1 where
      st1: "st1 = (buf1, vectidx1, vectevt1, idx1, Suc n)" and pe: "pending vectevt1 idx1 p1"
      and w: "\<And>evs. map_option (\<lambda>b. (b, vectidx1 + length (pack3 (p1 @ evs))))
             (wr_bytes buf1 (vp + 2 + vectidx1) (pack3 (p1 @ evs))) =
           map_option (\<lambda>b. (b, vectidx + length (pack3 (p @ e # evs))))
             (wr_bytes buf (vp + 2 + vectidx) (pack3 (p @ e # evs)))" by metis
    from Cons.IH [OF pe i [unfolded st1]] obtain sent rest evs where
      "vs = sent @ rest" "vs1 = map clear_tx sent @ rest"
      "\<forall>v \<in> set sent. em_match es (attribute v) \<and> app_tx (applicant v)"
      "vector_values (em_succ es) (em_succ es (em_succ es k)) evs = map value_event sent"
      "\<forall>e \<in> set evs. e < 6" "snd (snd (snd (snd st))) = Suc n + length evs"
      "emit_trailer vp st = map_option (\<lambda>b. (b, vectidx1 + length (pack3 (p1 @ evs))))
             (wr_bytes buf1 (vp + 2 + vectidx1) (pack3 (p1 @ evs)))" by metis
    with True vs' key e w [of evs] show ?thesis
      by (intro exI [of _ "v # sent"] exI [of _ rest] exI [of _ "e # evs"])
         (auto simp: value_event_def inner_evt_regular [OF assms(1)] vect_evt_less)
  qed
qed

lemma emit_vector_spec:
  assumes reg: "emit_regular es"
    and "emit_vector es eof lv_all vp buf a as = (Next (buf', vp'), as')"
  obtains sent rest evs where
    "as = sent @ rest" "as' = map clear_tx sent @ rest"
    "\<forall>v \<in> set sent. em_match es (attribute v) \<and> app_tx (applicant v)"
    "vector_values (em_succ es) (attribute a) evs = map value_event (a # sent)"
    "evs \<noteq> []" "\<forall>e \<in> set evs. e < 6"
    "wr_bytes buf vp (vector_bytes es lv_all (attribute a, evs)) = Some buf'"
    "vp' = vp + length (vector_bytes es lv_all (attribute a, evs))" "vp' + 2 \<le> eof"
proof -
  let ?F = "em_first es (attribute a)"
  have F: "length ?F = em_vectidx es" using reg by (simp add: emit_regular_def)
  from assms(2) obtain buf1 e st buf2 vectidx h where
    w1: "wr_bytes buf (vp + 2) ?F = Some buf1"
    and e: "vect_evt (app_sndmsg (applicant a)) (reg_state (registrar a)) = Some e"
    and i: "emit_inner es (reg_state (registrar a)) eof vp (attribute a)
              (buf1, em_vectidx es, [e, 0, 0], 1, 1) as = (Next st, as')"
    and t: "emit_trailer vp st = Some (buf2, vectidx)"
    and lim: "vp + 2 + vectidx + 2 \<le> eof" and h: "h = vect_header lv_all (snd (snd (snd (snd st))))"
    and w3: "wr_bytes buf2 vp [hi8 h, lo8 h] = Some buf'" and vp': "vp' = vp + 2 + vectidx"
    using reg by (auto simp: emit_vector_def emit_regular_def Let_def simp del: wr_bytes.simps
                    split: option.splits flow.splits prod.splits if_splits)
  have "pending [e, 0, 0] 1 [e]" by (simp add: pending_def numeral_2_eq_2)
  from emit_inner_spec [OF reg this i] obtain sent rest evs where
    sp: "as = sent @ rest" "as' = map clear_tx sent @ rest"
    "\<forall>v \<in> set sent. em_match es (attribute v) \<and> app_tx (applicant v)"
    and v: "vector_values (em_succ es) (em_succ es (attribute a)) evs = map value_event sent"
    and l: "\<forall>e \<in> set evs. e < 6" and n: "snd (snd (snd (snd st))) = 1 + length evs"
    and tr: "emit_trailer vp st = map_option (\<lambda>b. (b, em_vectidx es + length (pack3 ([e] @ evs))))
             (wr_bytes buf1 (vp + 2 + em_vectidx es) (pack3 ([e] @ evs)))" by metis
  from t tr have w2: "wr_bytes buf1 (vp + 2 + em_vectidx es) (pack3 (e # evs)) = Some buf2"
    and vi: "vectidx = em_vectidx es + length (pack3 (e # evs))" by auto
  have "wr_bytes buf (vp + 2) (?F @ pack3 (e # evs)) = Some buf2"
    using w1 w2 F by (simp add: wr_bytes_append)
  then have "wr_bytes buf vp ([hi8 h, lo8 h] @ ?F @ pack3 (e # evs)) = Some buf'"
    using wr_bytes_header [of buf vp "[hi8 h, lo8 h]" "?F @ pack3 (e # evs)" buf2 buf'] w3 by simp
  moreover have vb: "vector_bytes es lv_all (attribute a, e # evs) = [hi8 h, lo8 h] @ ?F @ pack3 (e # evs)"
    by (simp add: vector_bytes_def h n Let_def)
  ultimately have w: "wr_bytes buf vp (vector_bytes es lv_all (attribute a, e # evs)) = Some buf'" by simp
  have vals: "vector_values (em_succ es) (attribute a) (e # evs) = map value_event (a # sent)"
    using v e by (simp add: value_event_def)
  have le: "\<forall>x \<in> set (e # evs). x < 6" using l vect_evt_less [OF e] by simp
  have vpl: "vp' = vp + length (vector_bytes es lv_all (attribute a, e # evs))"
    by (simp only: vp' vi vb) (simp add: F)
  show thesis
    by (rule that [OF sp vals _ le w vpl]) (use lim vp' in auto)
qed

text \<open>How the transmit flags of a list change: each is kept or cleared, nothing else changes.\<close>

definition tx_cleared :: "'k mrp_attribute list \<Rightarrow> 'k mrp_attribute list \<Rightarrow> bool" where
  "tx_cleared as as' \<longleftrightarrow> list_all2 (\<lambda>a a'. a' = a \<or> a' = clear_tx a) as as'"

text \<open>
  The values sent are, in order, some of the flagged attributes with their events, and every
  flagged attribute whose message is mandatory is among them or keeps its flag.
\<close>

definition values_sent ::
  "('k, 'z) emit_params_scheme \<Rightarrow> 'k mrp_attribute list \<Rightarrow> 'k mrp_attribute list \<Rightarrow> ('k \<times> nat) list \<Rightarrow> bool" where
  "values_sent es as as' vals \<longleftrightarrow>
     subseq vals (map value_event (filter (\<lambda>a. em_match es (attribute a) \<and> app_tx (applicant a)) as)) \<and>
     (\<forall>a \<in> set as. em_match es (attribute a) \<and> app_tx (applicant a) \<and>
        app_encode (applicant a) = MRP_ENCODE_YES \<longrightarrow> value_event a \<in> set vals \<or> a \<in> set as')"

lemma tx_cleared_refl [simp]: "tx_cleared as as"
  by (simp add: tx_cleared_def list_all2_refl)

lemma tx_cleared_trans: "tx_cleared as bs \<Longrightarrow> tx_cleared bs cs \<Longrightarrow> tx_cleared as cs"
  unfolding tx_cleared_def list_all2_conv_all_nth by (metis clear_tx_simps(5))

lemma tx_cleared_Cons [simp]:
  "tx_cleared (a # as) (a' # as') \<longleftrightarrow> (a' = a \<or> a' = clear_tx a) \<and> tx_cleared as as'"
  by (simp add: tx_cleared_def)

lemma tx_cleared_map: "tx_cleared (sent @ rest) (map clear_tx sent @ rest)"
  by (induction sent) auto

lemma tx_cleared_keys: "tx_cleared as as' \<Longrightarrow> map attribute as' = map attribute as"
  unfolding tx_cleared_def by (induction rule: list_all2_induct) auto

lemma tx_cleared_registrars: "tx_cleared as as' \<Longrightarrow> map registrar as' = map registrar as"
  unfolding tx_cleared_def by (induction rule: list_all2_induct) auto

lemma tx_cleared_states: "tx_cleared as as' \<Longrightarrow> map (app_state \<circ> applicant) as' = map (app_state \<circ> applicant) as"
  unfolding tx_cleared_def by (induction rule: list_all2_induct) auto

lemma values_sent_skip:
  assumes "values_sent es as as' vals" "\<not> (em_match es (attribute a) \<and> app_tx (applicant a)) \<or>
      app_encode (applicant a) = MRP_ENCODE_OPTIONAL"
  shows "values_sent es (a # as) (x # as') vals"
proof -
  let ?f = "filter (\<lambda>a. em_match es (attribute a) \<and> app_tx (applicant a))"
  have "subseq vals (map value_event (?f as))" using assms(1) by (simp add: values_sent_def)
  then have "subseq vals (map value_event (?f (a # as)))" by (simp add: list_emb_Cons)
  moreover have "\<not> (em_match es (attribute a) \<and> app_tx (applicant a) \<and> app_encode (applicant a) = MRP_ENCODE_YES)"
    using assms(2) by auto
  ultimately show ?thesis
    using assms(1) unfolding values_sent_def by auto
qed

lemma values_sent_vector:
  assumes "values_sent es (map clear_tx sent @ rest) as' vals"
    and "\<forall>v \<in> set (a # sent). em_match es (attribute v) \<and> app_tx (applicant v)"
  shows "values_sent es (a # sent @ rest) (x # as') (map value_event (a # sent) @ vals)"
proof -
  have "filter (\<lambda>a. em_match es (attribute a) \<and> app_tx (applicant a)) (map clear_tx sent) = []"
    by (induction sent) auto
  moreover have "filter (\<lambda>a. em_match es (attribute a) \<and> app_tx (applicant a)) sent = sent"
    using assms(2) by (auto simp: filter_id_conv)
  ultimately show ?thesis
    using assms by (auto simp: values_sent_def subseq_append')
qed

text \<open>What a run of the loop leaves behind, in terms of the vectors it wrote.\<close>

definition emitted ::
  "('k, 'z) emit_params_scheme \<Rightarrow> nat \<Rightarrow> bool \<Rightarrow> nat \<Rightarrow> nat \<Rightarrow> bytes \<Rightarrow> bool \<Rightarrow> 'k mrp_attribute list \<Rightarrow>
     bytes \<times> nat \<times> nat \<times> bool \<Rightarrow> 'k mrp_attribute list \<Rightarrow> ('k \<times> nat list) list \<Rightarrow> bool" where
  "emitted es eof lv_all ptr vp buf found as st as' vecs \<longleftrightarrow>
     (case st of (buf', ptr', vp', found') \<Rightarrow>
       wr_bytes buf vp (vectors_bytes es lv_all vecs) = Some buf' \<and>
       vp' = vp + length (vectors_bytes es lv_all vecs) \<and> found' = (found \<or> vecs \<noteq> []) \<and>
       (if vecs = [] then ptr' = ptr else ptr' = vp' \<and> vp' + 2 \<le> eof)) \<and>
     (\<forall>(k, evs) \<in> set vecs. evs \<noteq> [] \<and> (\<forall>e \<in> set evs. e < 6)) \<and>
     values_sent es as as' (vectors_values (em_succ es) vecs) \<and> tx_cleared as as'"

lemma emitted_none: "emitted es eof lv_all ptr vp buf found as (buf, ptr, vp, found) as []"
  by (simp add: emitted_def values_sent_def vectors_values_def)

lemma emitted_skip:
  assumes "emitted es eof lv_all ptr vp buf found as st as' vecs" and "x = a \<or> x = clear_tx a"
    and "\<not> (em_match es (attribute a) \<and> app_tx (applicant a)) \<or> app_encode (applicant a) = MRP_ENCODE_OPTIONAL"
  shows "emitted es eof lv_all ptr vp buf found (a # as) st (x # as') vecs"
  using assms(1,2) values_sent_skip [OF _ assms(3)] unfolding emitted_def tx_cleared_Cons by blast

lemma emitted_vector:
  assumes "emitted es eof (lv_all \<and> em_keep_lva es) vp1 vp1 buf1 True (map clear_tx sent @ rest) st as' vecs"
    and "\<forall>v \<in> set (a # sent). em_match es (attribute v) \<and> app_tx (applicant v)"
    and "vector_values (em_succ es) (attribute a) evs = map value_event (a # sent)"
    and "evs \<noteq> []" "\<forall>e \<in> set evs. e < 6"
    and "wr_bytes buf vp (vector_bytes es lv_all (attribute a, evs)) = Some buf1"
    and "vp1 = vp + length (vector_bytes es lv_all (attribute a, evs))" "vp1 + 2 \<le> eof"
  shows "emitted es eof lv_all ptr vp buf found (a # sent @ rest) st (clear_tx a # as')
           ((attribute a, evs) # vecs)"
proof -
  obtain buf' ptr' vp' found' where st: "st = (buf', ptr', vp', found')" by (metis prod_cases4)
  have vals: "vectors_values (em_succ es) ((attribute a, evs) # vecs) =
      map value_event (a # sent) @ vectors_values (em_succ es) vecs"
    by (simp only: vectors_values_def list.map concat.simps prod.case assms(3))
  have "values_sent es (a # sent @ rest) (clear_tx a # as') (vectors_values (em_succ es) ((attribute a, evs) # vecs))"
    unfolding vals by (rule values_sent_vector) (use assms(1,2) in \<open>auto simp: emitted_def\<close>)
  moreover have "tx_cleared (a # sent @ rest) (clear_tx a # as')"
    using assms(1) tx_cleared_map [of sent rest] tx_cleared_trans [of "sent @ rest"]
    by (auto simp: emitted_def)
  ultimately show ?thesis
    using assms(1,4-8) by (auto simp: emitted_def st wr_bytes_append split: if_splits)
qed

lemma emit_loop_spec:
  assumes "emit_regular es"
    and "emit_loop es eof lv_all ptr vp buf found as = (Next st, as')"
  shows "\<exists>vecs. emitted es eof lv_all ptr vp buf found as st as' vecs"
  using assms
proof (induction es eof lv_all ptr vp buf found as arbitrary: as' rule: emit_loop.induct)
  case (1 es eof lv_all ptr vp buf found)
  then show ?case using emitted_none by fastforce
next
  case (2 es eof lv_all ptr vp buf found a as)
  consider (stop) "\<not> ptr + em_vector_size es + 2 < eof"
    | (skip) "ptr + em_vector_size es + 2 < eof" "\<not> em_match es (attribute a) \<or> \<not> app_tx (applicant a)"
    | (opt) "ptr + em_vector_size es + 2 < eof" "\<not> (\<not> em_match es (attribute a) \<or> \<not> app_tx (applicant a))"
        "app_encode (applicant a) = MRP_ENCODE_OPTIONAL"
    | (vec) "ptr + em_vector_size es + 2 < eof" "\<not> (\<not> em_match es (attribute a) \<or> \<not> app_tx (applicant a))"
        "app_encode (applicant a) \<noteq> MRP_ENCODE_OPTIONAL" by blast
  then show ?case
  proof cases
    case stop
    with "2.prems" have "st = (buf, ptr, vp, found)" "as' = a # as" by simp_all
    then show ?thesis using emitted_none by blast
  next
    case skip
    with "2.prems" obtain as1 where "emit_loop es eof lv_all ptr vp buf found as = (Next st, as1)"
      and as': "as' = a # as1" by (auto simp: Let_def split: prod.splits)
    then show ?thesis using "2.IH"(1) skip "2.prems"(1) emitted_skip by blast
  next
    case opt
    with "2.prems" obtain as1 where "emit_loop es eof lv_all ptr vp buf found as = (Next st, as1)"
      and as': "as' = clear_tx a # as1" by (auto simp: Let_def split: prod.splits)
    then show ?thesis using "2.IH"(2) opt "2.prems"(1) emitted_skip by blast
  next
    case vec
    with "2.prems" obtain buf1 vp1 as1 as2 where
      v: "emit_vector es eof lv_all vp buf a as = (Next (buf1, vp1), as1)"
      and l: "emit_loop es eof (lv_all \<and> em_keep_lva es) vp1 vp1 buf1 True as1 = (Next st, as2)"
      and as': "as' = clear_tx a # as2" by (auto simp: Let_def split: prod.splits flow.splits)
    have IH: "\<exists>vecs. emitted es eof (lv_all \<and> em_keep_lva es) vp1 vp1 buf1 True as1 st as2 vecs"
      using "2.IH"(3) vec v l "2.prems"(1) by auto
    from v "2.prems"(1) show ?thesis
    proof (elim emit_vector_spec [rotated])
      fix sent rest evs
      assume s: "as = sent @ rest" "as1 = map clear_tx sent @ rest"
        "\<forall>v \<in> set sent. em_match es (attribute v) \<and> app_tx (applicant v)"
        "vector_values (em_succ es) (attribute a) evs = map value_event (a # sent)"
        "evs \<noteq> []" "\<forall>e \<in> set evs. e < 6"
        "wr_bytes buf vp (vector_bytes es lv_all (attribute a, evs)) = Some buf1"
        "vp1 = vp + length (vector_bytes es lv_all (attribute a, evs))" "vp1 + 2 \<le> eof"
      have "\<forall>v \<in> set (a # sent). em_match es (attribute v) \<and> app_tx (applicant v)" using vec s(3) by simp
      with IH s(4-9) show ?thesis
        unfolding as' s(1) s(2) using emitted_vector by blast
    qed
  qed
qed

section \<open>Lemmas on transmission: no write leaves the buffer\<close>

text \<open>
  The sizes the routine checks cover what it writes. The space test of the loop is made on
  the start of the message as long as there is no vector, so the first vector needs room for
  the message header as well.
\<close>

definition emit_safe :: "('k, 'z) emit_params_scheme \<Rightarrow> bool" where
  "emit_safe es \<longleftrightarrow> (\<forall>k. length (em_first es k) \<le> em_vectidx es) \<and>
     em_vectidx es \<le> em_vector_size es \<and> 2 \<le> em_vector_size es \<and> 0 < em_slack es"

text \<open>A vector to be written at \<open>vp\<close> fits when the space test is made on \<open>ptr\<close>.\<close>

definition vector_fits :: "('k, 'z) emit_params_scheme \<Rightarrow> nat \<Rightarrow> nat \<Rightarrow> nat \<Rightarrow> bool" where
  "vector_fits es eof ptr vp \<longleftrightarrow>
     vp + em_vectidx es \<le> ptr + em_vector_size es \<or> vp + 2 + em_vectidx es < eof"

lemma vector_fits_next: "emit_safe es \<Longrightarrow> vector_fits es eof vp vp"
  by (simp add: emit_safe_def vector_fits_def)

lemma push_evt_safe:
  assumes "vp + 2 + vectidx < length buf" "idx < 3"
  obtains buf' vectidx' vectevt' idx' where
    "push_evt vp e (buf, vectidx, vectevt, idx, n) = Some (buf', vectidx', vectevt', idx', Suc n)"
    "idx' < 3" "length buf' = length buf"
proof (cases "Suc idx > 2")
  case True
  then show thesis
    using assms that [of _ "Suc vectidx" "[0, 0, 0]" 0] by (auto simp: push_evt_def wr_def Let_def)
next
  case False
  then show thesis
    using assms that [of buf vectidx _ "Suc idx"] by (auto simp: push_evt_def Let_def)
qed

lemma emit_inner_safe:
  assumes "emit_safe es" "eof \<le> length buf" "vp + 2 + vectidx < length buf" "idx < 3"
  shows "case emit_inner es fr eof vp k (buf, vectidx, vectevt, idx, n) vs of
      (Next (buf', vectidx', vectevt', idx', n'), _) \<Rightarrow> length buf' = length buf \<and> vp + 2 + vectidx' < length buf
    | (Goto, _) \<Rightarrow> True | (Fault, _) \<Rightarrow> False"
  using assms(2-4)
proof (induction vs arbitrary: k buf vectidx vectevt idx n)
  case Nil
  then show ?case by simp
next
  case (Cons v vs)
  show ?case
  proof (cases "em_match es (attribute v) \<and> app_tx (applicant v) \<and> em_same es (em_succ es k) (attribute v)")
    case False
    then show ?thesis using Cons.prems by auto
  next
    case True
    show ?thesis
    proof (cases "inner_evt es fr v")
      case None
      then show ?thesis using True by (simp add: Let_def)
    next
      case (Some e)
      obtain buf' vectidx' vectevt' idx' where
        p: "push_evt vp e (buf, vectidx, vectevt, idx, n) = Some (buf', vectidx', vectevt', idx', Suc n)"
        "idx' < 3" "length buf' = length buf"
        using push_evt_safe [OF Cons.prems(2,3)] by metis
      show ?thesis
      proof (cases "eof < vp + 2 + vectidx' + em_slack es")
        case True
        then show ?thesis using Some p \<open>em_match es (attribute v) \<and> _\<close> by (simp add: Let_def)
      next
        case False
        then have "vp + 2 + vectidx' < length buf'"
          using Cons.prems p assms(1) by (auto simp: emit_safe_def)
        from Cons.IH [OF _ this p(2), of "em_succ es k" vectevt' "Suc n"] show ?thesis
          using False True Some p Cons.prems(1)
          by (auto simp: Let_def split: prod.splits flow.splits)
      qed
    qed
  qed
qed

lemma emit_vector_safe:
  assumes "emit_safe es" "eof \<le> length buf" "vp + 2 + em_vectidx es < length buf"
  shows "case emit_vector es eof lv_all vp buf a as of
      (Next (buf', vp'), _) \<Rightarrow> length buf' = length buf | (Goto, _) \<Rightarrow> True | (Fault, _) \<Rightarrow> False"
proof -
  have F: "vp + 2 + length (em_first es (attribute a)) \<le> length buf"
    using assms(1,3) unfolding emit_safe_def by (meson add_left_mono le_trans less_imp_le)
  then obtain buf1 where w1: "wr_bytes buf (vp + 2) (em_first es (attribute a)) = Some buf1"
    using wr_bytes_Some by blast
  have l1: "length buf1 = length buf" using wr_bytes_length [OF w1] .
  show ?thesis
  proof (cases "vect_evt (app_sndmsg (applicant a)) (reg_state (registrar a))")
    case None
    then show ?thesis unfolding emit_vector_def w1 option.case by simp
  next
    case (Some e)
    have "case emit_inner es (reg_state (registrar a)) eof vp (attribute a)
             (buf1, em_vectidx es, [e, fst (em_pad es (attribute a)), snd (em_pad es (attribute a))], 1, 1) as of
        (Next (buf', vectidx', vectevt', idx', n'), _) \<Rightarrow> length buf' = length buf1 \<and> vp + 2 + vectidx' < length buf1
      | (Goto, _) \<Rightarrow> True | (Fault, _) \<Rightarrow> False"
      by (rule emit_inner_safe) (use assms l1 in auto)
    then show ?thesis
      using Some l1 assms(3) unfolding emit_vector_def w1 option.case
      by (auto simp: emit_trailer_def wr_def Let_def split: prod.splits flow.splits option.splits if_splits)
  qed
qed

lemma emit_loop_safe:
  assumes "emit_safe es" "eof \<le> length buf" "vector_fits es eof ptr vp"
  shows "case emit_loop es eof lv_all ptr vp buf found as of
      (Next (buf', _), _) \<Rightarrow> length buf' = length buf | (Goto, _) \<Rightarrow> True | (Fault, _) \<Rightarrow> False"
  using assms
proof (induction es eof lv_all ptr vp buf found as rule: emit_loop.induct)
  case (1 es eof lv_all ptr vp buf found)
  then show ?case by simp
next
  case (2 es eof lv_all ptr vp buf found a as)
  show ?case
  proof (cases "ptr + em_vector_size es + 2 < eof")
    case False
    then show ?thesis by simp
  next
    case room: True
    then have "vp + 2 + em_vectidx es < length buf"
      using "2.prems" by (auto simp: vector_fits_def)
    note v = emit_vector_safe [OF "2.prems"(1,2) this, of lv_all a as]
    show ?thesis
    proof (cases "\<not> em_match es (attribute a) \<or> \<not> app_tx (applicant a) \<or> app_encode (applicant a) = MRP_ENCODE_OPTIONAL")
      case True
      then show ?thesis
        using "2.IH"(1,2) "2.prems" room
        by (cases "em_match es (attribute a)"; cases "app_tx (applicant a)")
           (auto simp: Let_def split: prod.splits flow.splits)
    next
      case sent: False
      show ?thesis
      proof (cases "emit_vector es eof lv_all vp buf a as")
        case (Pair r as1)
        then show ?thesis
        proof (cases r)
          case (Next bv)
          obtain buf1 vp1 where bv: "bv = (buf1, vp1)" by (cases bv)
          have "length buf1 = length buf" using v Pair Next bv by simp
          then show ?thesis
            using "2.IH"(3) Pair Next bv sent room "2.prems"(1,2) vector_fits_next [OF "2.prems"(1)]
            by (fastforce simp: Let_def split: prod.splits flow.splits)
        next
          case Goto
          then show ?thesis using Pair sent room by (simp add: Let_def)
        next
          case Fault
          then show ?thesis using v Pair by simp
        qed
      qed
    qed
  qed
qed

lemma emit_vector_end:
  "emit_vector es eof lv_all vp buf a as = (Next (buf', vp'), as') \<Longrightarrow> vp < vp' \<and> vp' + 2 \<le> eof"
  by (auto simp: emit_vector_def Let_def simp del: wr_bytes.simps split: option.splits flow.splits prod.splits if_splits)

lemma emit_loop_end:
  assumes "emit_loop es eof lv_all ptr vp buf found as = (Next (buf', ptr', vp', found'), as')"
  shows "(vp' = vp \<and> ptr' = ptr \<and> found' = found) \<or> (found' \<and> ptr' = vp' \<and> vp < vp' \<and> vp' + 2 \<le> eof)"
  using assms
proof (induction es eof lv_all ptr vp buf found as arbitrary: as' rule: emit_loop.induct)
  case (1 es eof lv_all ptr vp buf found)
  then show ?case by simp
next
  case (2 es eof lv_all ptr vp buf found a as)
  show ?case
  proof (cases "ptr + em_vector_size es + 2 < eof \<and> em_match es (attribute a) \<and> app_tx (applicant a) \<and>
      app_encode (applicant a) \<noteq> MRP_ENCODE_OPTIONAL")
    case False
    with 2 show ?thesis by (auto simp: Let_def split: prod.splits if_splits)
  next
    case True
    with "2.prems" obtain buf1 vp1 as1 as2 where
      v: "emit_vector es eof lv_all vp buf a as = (Next (buf1, vp1), as1)"
      and l: "emit_loop es eof (lv_all \<and> em_keep_lva es) vp1 vp1 buf1 True as1 = (Next (buf', ptr', vp', found'), as2)"
      by (auto simp: Let_def split: prod.splits flow.splits)
    have "(vp' = vp1 \<and> ptr' = vp1 \<and> found' = True) \<or> (found' \<and> ptr' = vp' \<and> vp1 < vp' \<and> vp' + 2 \<le> eof)"
      using "2.IH"(3) True v l by auto
    then show ?thesis using emit_vector_end [OF v] by auto
  qed
qed

lemma emit_message_safe:
  assumes "emit_safe es" "eof \<le> length buf" "vector_fits es eof p0 (p0 + em_data es)"
    and "send_empty \<Longrightarrow> p0 + em_data es + 2 + unat (em_length es) + 2 \<le> eof"
  shows "case emit_message es buf p0 eof lv_all send_empty as of
      (Next (buf', n), _) \<Rightarrow> length buf' = length buf \<and> p0 + n \<le> eof | (Goto, _) \<Rightarrow> True | (Fault, _) \<Rightarrow> False"
proof (cases "eof < p0 + em_vector_size es")
  case True
  then show ?thesis by (simp add: emit_message_def)
next
  case room: False
  have fit: "\<exists>b'. wr_bytes b i [x, y] = Some b' \<and> length b' = length b" if "i + 2 \<le> length b" for b i x y
    using wr_bytes_Some [of i "[x, y]" b] wr_bytes_length that by fastforce
  obtain buf0 where w0: "wr_bytes buf p0 [em_type es, em_length es] = Some buf0" and l0: "length buf0 = length buf"
    using fit [of p0 buf] room assms(1,2) by (fastforce simp: emit_safe_def)
  have s: "case emit_loop es eof lv_all p0 (p0 + em_data es) buf0 False as of
      (Next (buf', _), _) \<Rightarrow> length buf' = length buf0 | (Goto, _) \<Rightarrow> True | (Fault, _) \<Rightarrow> False"
    by (rule emit_loop_safe) (use assms l0 in \<open>auto\<close>)
  show ?thesis
  proof (cases "emit_loop es eof lv_all p0 (p0 + em_data es) buf0 False as")
    case (Pair r as')
    show ?thesis
    proof (cases r)
      case (Next st)
      obtain buf1 ptr vp found where st: "st = (buf1, ptr, vp, found)" by (metis prod_cases4)
      note e = emit_loop_end [of es eof lv_all p0 "p0 + em_data es" buf0 False as buf1 ptr vp found as']
      have l1: "length buf1 = length buf" using s Pair Next st l0 by simp
      show ?thesis
      proof (cases found)
        case True
        then have "ptr = vp" "p0 + em_data es < vp" "vp + 2 \<le> eof" using e Pair Next st by auto
        then obtain buf2 where "wr_bytes buf1 ptr [0, 0] = Some buf2" "length buf2 = length buf"
          using fit [of ptr buf1 0 0] l1 assms(2) by fastforce
        then show ?thesis
          using room w0 Pair Next st True \<open>ptr = vp\<close> \<open>p0 + em_data es < vp\<close> \<open>vp + 2 \<le> eof\<close>
          by (simp add: emit_message_def del: wr_bytes.simps)
      next
        case nf: False
        then have v: "vp = p0 + em_data es" "ptr = p0" using e Pair Next st by auto
        show ?thesis
        proof (cases send_empty)
          case False
          then show ?thesis using room w0 Pair Next st nf v l1
            by (simp add: emit_message_def del: wr_bytes.simps)
        next
          case True
          then have lim: "vp + 2 + unat (em_length es) + 2 \<le> eof" using assms(4) v by simp
          then obtain buf2 where w2: "wr_bytes buf1 vp [hi8 (vect_header True 0), lo8 (vect_header True 0)] = Some buf2"
            "length buf2 = length buf"
            using fit [of vp buf1 "hi8 (vect_header True 0)" "lo8 (vect_header True 0)"] l1 assms(2) by fastforce
          then obtain buf3 where "wr_bytes buf2 (vp + 2 + unat (em_length es)) [0, 0] = Some buf3" "length buf3 = length buf"
            using fit [of "vp + 2 + unat (em_length es)" buf2 0 0] lim assms(2) by fastforce
          then show ?thesis using room w0 Pair Next st nf v(1) w2 True lim
            by (simp add: emit_message_def del: wr_bytes.simps)
        qed
      qed
    next
      case Goto
      then show ?thesis using room w0 Pair by (simp add: emit_message_def del: wr_bytes.simps)
    next
      case Fault
      then show ?thesis using s Pair by simp
    qed
  qed
qed

section \<open>Lemmas on transmission: the attributes afterwards and the message as a whole\<close>

lemma emit_inner_tx_cleared: "tx_cleared vs (snd (emit_inner es fr eof vp k st vs))"
  by (induction es fr eof vp k st vs rule: emit_inner.induct)
     (auto simp: Let_def case_prod_unfold split: option.splits)

lemma emit_vector_tx_cleared: "tx_cleared as (snd (emit_vector es eof lv_all vp buf a as))"
  using emit_inner_tx_cleared [of as es "reg_state (registrar a)" eof vp "attribute a"]
  by (auto simp: emit_vector_def Let_def simp del: wr_bytes.simps split: option.splits flow.splits prod.splits)
     (metis snd_conv)+

lemma emit_loop_tx_cleared: "tx_cleared as (snd (emit_loop es eof lv_all ptr vp buf found as))"
proof (induction es eof lv_all ptr vp buf found as rule: emit_loop.induct)
  case (2 es eof lv_all ptr vp buf found a as)
  show ?case
  proof (cases "ptr + em_vector_size es + 2 < eof \<and> em_match es (attribute a) \<and> app_tx (applicant a) \<and>
      app_encode (applicant a) \<noteq> MRP_ENCODE_OPTIONAL")
    case False
    with "2.IH"(1,2) show ?thesis by (auto simp: Let_def case_prod_unfold)
  next
    case True
    note v = emit_vector_tx_cleared [of as es eof lv_all vp buf a]
    show ?thesis
    proof (cases "emit_vector es eof lv_all vp buf a as")
      case (Pair r as1)
      then show ?thesis
        using True v "2.IH"(3) tx_cleared_trans [of as as1]
        by (cases r) (fastforce simp: Let_def case_prod_unfold split: prod.splits)+
    qed
  qed
qed simp

lemma emit_message_tx_cleared: "tx_cleared as (snd (emit_message es buf p0 eof lv_all send_empty as))"
proof (cases "wr_bytes buf p0 [em_type es, em_length es]")
  case None
  then show ?thesis by (simp add: emit_message_def del: wr_bytes.simps)
next
  case (Some buf0)
  show ?thesis
    using emit_loop_tx_cleared [of as es eof lv_all p0 "p0 + em_data es" buf0 False]
    unfolding emit_message_def Some option.case
    by (cases "emit_loop es eof lv_all p0 (p0 + em_data es) buf0 False as")
       (simp del: wr_bytes.simps split: flow.split prod.split option.split)
qed

text \<open>The attributes of other types are left alone.\<close>

definition others_kept :: "('k, 'z) emit_params_scheme \<Rightarrow> 'k mrp_attribute list \<Rightarrow> 'k mrp_attribute list \<Rightarrow> bool" where
  "others_kept es as as' \<longleftrightarrow> list_all2 (\<lambda>a a'. em_match es (attribute a) \<or> a' = a) as as'"

lemma others_kept_simps [simp]:
  "others_kept es as as"
  "others_kept es (a # as) (a' # as') \<longleftrightarrow> (em_match es (attribute a) \<or> a' = a) \<and> others_kept es as as'"
  by (simp_all add: others_kept_def list_all2_refl)

lemma emit_inner_others: "others_kept es vs (snd (emit_inner es fr eof vp k st vs))"
  by (induction es fr eof vp k st vs rule: emit_inner.induct)
     (auto simp: Let_def case_prod_unfold split: option.splits)

lemma emit_vector_others: "others_kept es as (snd (emit_vector es eof lv_all vp buf a as))"
  using emit_inner_others [of es as "reg_state (registrar a)" eof vp "attribute a"]
  by (auto simp: emit_vector_def Let_def simp del: wr_bytes.simps split: option.splits flow.splits prod.splits)
     (metis snd_conv)+

lemma others_kept_trans: "others_kept es as bs \<Longrightarrow> tx_cleared as bs \<Longrightarrow> others_kept es bs cs \<Longrightarrow> others_kept es as cs"
  unfolding others_kept_def tx_cleared_def list_all2_conv_all_nth by metis

lemma emit_loop_others: "others_kept es as (snd (emit_loop es eof lv_all ptr vp buf found as))"
proof (induction es eof lv_all ptr vp buf found as rule: emit_loop.induct)
  case (2 es eof lv_all ptr vp buf found a as)
  show ?case
  proof (cases "ptr + em_vector_size es + 2 < eof \<and> em_match es (attribute a) \<and> app_tx (applicant a) \<and>
      app_encode (applicant a) \<noteq> MRP_ENCODE_OPTIONAL")
    case False
    with "2.IH"(1,2) show ?thesis by (auto simp: Let_def case_prod_unfold)
  next
    case True
    obtain r as1 where v: "emit_vector es eof lv_all vp buf a as = (r, as1)" by (metis prod.exhaust)
    then have k: "others_kept es as as1" "tx_cleared as as1"
      using emit_vector_others [of es as eof lv_all vp buf a] emit_vector_tx_cleared [of as es eof lv_all vp buf a]
      by simp_all
    show ?thesis
    proof (cases r)
      case (Next x)
      obtain buf1 vp1 where x: "x = (buf1, vp1)" by (cases x)
      have "others_kept es as1 (snd (emit_loop es eof (lv_all \<and> em_keep_lva es) vp1 vp1 buf1 True as1))"
        using "2.IH"(3) True v Next x by auto
      then show ?thesis using True v Next x others_kept_trans [OF k] by (simp add: Let_def case_prod_unfold)
    qed (use True v k in \<open>simp_all add: Let_def\<close>)
  qed
qed simp

lemma emit_message_others: "others_kept es as (snd (emit_message es buf p0 eof lv_all send_empty as))"
proof (cases "wr_bytes buf p0 [em_type es, em_length es]")
  case None
  then show ?thesis by (simp add: emit_message_def del: wr_bytes.simps)
next
  case (Some buf0)
  show ?thesis
    using emit_loop_others [of es as eof lv_all p0 "p0 + em_data es" buf0 False]
    unfolding emit_message_def Some option.case
    by (cases "emit_loop es eof lv_all p0 (p0 + em_data es) buf0 False as")
       (auto simp del: wr_bytes.simps split: option.splits flow.splits prod.splits if_splits)
qed

lemma emit_message_spec:
  assumes reg: "emit_regular es" and data: "em_data es = 2"
    and m: "emit_message es buf p0 eof lv_all send_empty as = (Next (buf', n), as')"
  shows "\<exists>vecs. values_sent es as as' (vectors_values (em_succ es) vecs) \<and>
    (\<forall>(k, evs) \<in> set vecs. evs \<noteq> [] \<and> (\<forall>e \<in> set evs. e < 6)) \<and>
    (if vecs \<noteq> []
     then wr_bytes buf p0 ([em_type es, em_length es] @ vectors_bytes es lv_all vecs @ [0, 0]) = Some buf' \<and>
          n = length (vectors_bytes es lv_all vecs) + 4 \<and> p0 + n \<le> eof
     else send_empty \<or> n = 0)"
proof -
  from m obtain buf0 buf1 ptr vp found where
    w0: "wr_bytes buf p0 [em_type es, em_length es] = Some buf0"
    and l: "emit_loop es eof lv_all p0 (p0 + em_data es) buf0 False as = (Next (buf1, ptr, vp, found), as')"
    by (auto simp: emit_message_def simp del: wr_bytes.simps split: if_splits option.splits flow.splits prod.splits)
  from emit_loop_spec [OF reg l] obtain vecs where
    e: "emitted es eof lv_all p0 (p0 + em_data es) buf0 False as (buf1, ptr, vp, found) as' vecs" ..
  show ?thesis
  proof (intro exI [of _ vecs] conjI)
    show "values_sent es as as' (vectors_values (em_succ es) vecs)"
      "\<forall>(k, evs) \<in> set vecs. evs \<noteq> [] \<and> (\<forall>e \<in> set evs. e < 6)"
      using e by (auto simp: emitted_def)
    show "if vecs \<noteq> []
     then wr_bytes buf p0 ([em_type es, em_length es] @ vectors_bytes es lv_all vecs @ [0, 0]) = Some buf' \<and>
          n = length (vectors_bytes es lv_all vecs) + 4 \<and> p0 + n \<le> eof
     else send_empty \<or> n = 0"
    proof (cases "vecs = []")
      case True
      then show ?thesis
        using e m w0 l by (auto simp: emitted_def emit_message_def simp del: wr_bytes.simps split: if_splits)
    next
      case False
      then have f: "found" "ptr = vp" "vp + 2 \<le> eof" "vp = p0 + 2 + length (vectors_bytes es lv_all vecs)"
        "wr_bytes buf0 (p0 + 2) (vectors_bytes es lv_all vecs) = Some buf1"
        using e data by (auto simp: emitted_def)
      have "vp \<noteq> p0 + 2" using emit_loop_end [OF l] f(1) data by auto
      then have w1: "wr_bytes buf1 vp [0, 0] = Some buf'" and n: "n = vp + 2 - p0"
        using m w0 l f data by (auto simp: emit_message_def simp del: wr_bytes.simps split: option.splits if_splits)
      have "wr_bytes buf p0 ([em_type es, em_length es] @ vectors_bytes es lv_all vecs @ [0, 0]) = Some buf'"
        unfolding wr_bytes_append [of buf p0 "[em_type es, em_length es]"] w0 option.case
        using f w1 by (simp add: wr_bytes_append del: wr_bytes.simps)
      then show ?thesis using f False n by (simp del: wr_bytes.simps)
    qed
  qed
qed

section \<open>Lemmas on reception\<close>

lemma numvectorbytes_eq: "numvectorbytes n = (n + 2) div 3"
  unfolding numvectorbytes_def by (cases "n mod 3 = 0") presburger+

lemma recv_evts_append:
  "recv_evts step (es @ fs) s =
     (case recv_evts step es s of
        (Next _, s') \<Rightarrow> recv_evts step fs s' | (Goto, s') \<Rightarrow> (Goto, s') | (Fault, s') \<Rightarrow> (Fault, s'))"
  by (induction step es s rule: recv_evts.induct) (auto split: flow.splits prod.splits)

lemma recv_vector_zero:
  "pos + n \<le> length buf \<Longrightarrow> recv_vector step buf pos n 0 s = (Next (), s)"
  by (induction n arbitrary: pos) (auto simp: rd_def)

text \<open>Reception undoes packing: the events are handled one by one, in order.\<close>

lemma recv_vector_pack3:
  assumes "\<forall>e \<in> set evs. e < 6" and "pos + length (pack3 evs) < length buf"
    and "take (length (pack3 evs)) (drop pos buf) = pack3 evs"
  shows "recv_vector step buf pos (Suc (length (pack3 evs))) (length evs) s = recv_evts step evs s"
  using assms
proof (induction evs arbitrary: pos s rule: pack3.induct)
  case 1
  then show ?case by (simp add: rd_def)
next
  case (2 a)
  then have "rd buf pos = Some (MRPDU_3PACK_ENCODE a 0 0)"
    by (simp add: rd_def take_Suc_conv_app_nth hd_drop_conv_nth)
  with 2 show ?case
    by (auto simp: unpack3_encode rd_def split: flow.splits prod.splits)
next
  case (3 a b)
  then have "rd buf pos = Some (MRPDU_3PACK_ENCODE a b 0)"
    by (simp add: rd_def take_Suc_conv_app_nth hd_drop_conv_nth)
  with 3 show ?case
    by (auto simp: unpack3_encode rd_def numeral_2_eq_2 split: flow.splits prod.splits)
next
  case (4 a b c es)
  have d: "drop pos buf = buf ! pos # drop (Suc pos) buf"
    using "4.prems" by (simp add: Cons_nth_drop_Suc)
  have r: "rd buf pos = Some (MRPDU_3PACK_ENCODE a b c)"
    and t: "take (length (pack3 es)) (drop (Suc pos) buf) = pack3 es"
    using "4.prems" by (auto simp: d rd_def)
  have IH: "recv_vector step buf (Suc pos) (Suc (length (pack3 es))) (length es) s' = recv_evts step es s'" for s'
    by (rule "4.IH") (use "4.prems" t in auto)
  have k: "(if length (a # b # c # es) > 3 then 3 else length (a # b # c # es)) = 3" by (cases es) auto
  have lens: "length (pack3 (a # b # c # es)) = Suc (length (pack3 es))" "length (a # b # c # es) - 3 = length es"
    by simp_all
  have u: "take 3 (unpack3 (MRPDU_3PACK_ENCODE a b c)) = [a, b, c]"
    using "4.prems"(1) by (simp add: unpack3_encode)
  have "recv_vector step buf pos (Suc (length (pack3 (a # b # c # es)))) (length (a # b # c # es)) s =
      (case recv_evts step [a, b, c] s of
         (Next _, s') \<Rightarrow> recv_vector step buf (Suc pos) (Suc (length (pack3 es))) (length es) s'
       | (Goto, s') \<Rightarrow> (Goto, s') | (Fault, s') \<Rightarrow> (Fault, s'))"
    by (subst recv_vector.simps(2)) (simp only: r option.case Let_def k u lens)
  also have "\<dots> = recv_evts step ([a, b, c] @ es) s"
    by (simp only: IH recv_evts_append)
  finally show ?case by simp
qed

lemma recv_evts_state_inv:
  assumes "\<And>e s. I s \<Longrightarrow> I (snd (step e s))" "I s"
  shows "I (snd (recv_evts step evs s))"
  using assms(2)
proof (induction evs arbitrary: s)
  case (Cons e evs)
  have "I (snd (step e s))" using assms(1) Cons.prems .
  then show ?case using Cons.IH by (auto split: flow.splits prod.splits)
qed simp

lemma recv_vector_state_inv:
  assumes "\<And>e s. I s \<Longrightarrow> I (snd (step e s))" "I s"
  shows "I (snd (recv_vector step buf pos n nv s))"
  using assms(2)
proof (induction n arbitrary: pos nv s)
  case (Suc n)
  let ?evs = "\<lambda>b. take (if nv > 3 then 3 else nv) (unpack3 b)"
  have inv: "I (snd (recv_evts step (?evs b) s))" for b
    using recv_evts_state_inv [of I step s] assms(1) Suc.prems by blast
  show ?case
  proof (cases "rd buf pos")
    case None
    show ?thesis unfolding recv_vector.simps(2) None option.case using Suc.prems by simp
  next
    case (Some b)
    obtain r s' where e: "recv_evts step (?evs b) s = (r, s')" by (cases "recv_evts step (?evs b) s")
    then have "I s'" using inv [of b] by simp
    then show ?thesis
      unfolding recv_vector.simps(2) [of step buf pos n] Some option.case Let_def e prod.case
      using Suc.IH by (cases r) auto
  qed
qed simp

lemma recv_evts_no_fault:
  assumes "\<And>e s. fst (step e s) \<noteq> Fault"
  shows "fst (recv_evts step evs s) \<noteq> Fault"
proof (induction evs arbitrary: s)
  case (Cons e evs)
  obtain r s' where e: "step e s = (r, s')" by (cases "step e s")
  then have "r \<noteq> Fault" using assms [of e s] by simp
  with e Cons show ?case by (cases r) auto
qed simp

lemma recv_vector_no_fault:
  assumes "\<And>e s. fst (step e s) \<noteq> Fault" "pos + n \<le> length buf"
  shows "fst (recv_vector step buf pos n nv s) \<noteq> Fault"
  using assms(2)
proof (induction n arbitrary: pos nv s)
  case (Suc n)
  let ?evs = "\<lambda>b. take (if nv > 3 then 3 else nv) (unpack3 b)"
  obtain b where b: "rd buf pos = Some b" using Suc.prems by (auto simp: rd_def)
  obtain r s' where e: "recv_evts step (?evs b) s = (r, s')" by (cases "recv_evts step (?evs b) s")
  have "r \<noteq> Fault" using recv_evts_no_fault [of step "?evs b" s] assms(1) e by simp
  then show ?case
    unfolding recv_vector.simps(2) [of step buf pos n] b option.case Let_def e prod.case
    using Suc by (cases r) auto
qed simp

section \<open>Lemmas on transmission: the size of a message\<close>

text \<open>The attributes that want to transmit in a message.\<close>

definition tx_number :: "('k, 'z) emit_params_scheme \<Rightarrow> 'k mrp_attribute list \<Rightarrow> nat" where
  "tx_number es as = length (filter (\<lambda>a. em_match es (attribute a) \<and> app_tx (applicant a)) as)"

lemma tx_number_simps [simp]:
  "tx_number es [] = 0"
  "tx_number es (a # as) =
     (if em_match es (attribute a) \<and> app_tx (applicant a) then Suc (tx_number es as) else tx_number es as)"
  "tx_number es (clear_tx a # as) = tx_number es as"
  by (simp_all add: tx_number_def clear_tx_def)

lemma tx_number_le: "tx_number es as \<le> length as"
  by (simp add: tx_number_def)

lemma push_evt_size:
  "push_evt vp e st = Some st' \<Longrightarrow> fst (snd st') \<le> Suc (fst (snd st))"
  by (auto simp: push_evt_def Let_def split: prod.splits if_splits)

lemma emit_inner_size:
  "emit_inner es fr eof vp k st vs = (Next st', vs') \<Longrightarrow>
   fst (snd st') + tx_number es vs' \<le> fst (snd st) + tx_number es vs"
proof (induction es fr eof vp k st vs arbitrary: vs' rule: emit_inner.induct)
  case (2 es fr eof vp k st v vs)
  show ?case
  proof (cases "em_match es (attribute v) \<and> app_tx (applicant v) \<and> em_same es (em_succ es k) (attribute v)")
    case False
    then show ?thesis using "2.prems" by (auto split: if_splits)
  next
    case True
    then obtain e st1 ws where e: "inner_evt es fr v = Some e" "push_evt vp e st = Some st1"
      "\<not> eof < vp + 2 + fst (snd st1) + em_slack es"
      "emit_inner es fr eof vp (em_succ es k) st1 vs = (Next st', ws)" "vs' = clear_tx v # ws"
      using "2.prems" by (auto simp: Let_def split: option.splits if_splits prod.splits)
    have "fst (snd st') + tx_number es ws \<le> fst (snd st1) + tx_number es vs"
      by (rule "2.IH" [OF _ _ refl _ e(1,2)]) (use True e in auto)
    then show ?thesis using push_evt_size [OF e(2)] e(5) True by simp
  qed
qed simp

lemma emit_vector_size:
  assumes "emit_vector es eof lv_all vp buf a as = (Next (buf', vp'), as')"
  shows "vp' + tx_number es as' \<le> vp + em_vectidx es + 3 + tx_number es as"
proof -
  obtain buf1 e st as1 where i: "emit_inner es (reg_state (registrar a)) eof vp (attribute a)
      (buf1, em_vectidx es, [e, fst (em_pad es (attribute a)), snd (em_pad es (attribute a))], 1, 1) as = (Next st, as1)"
    and t: "\<exists>b x. emit_trailer vp st = Some (b, x) \<and> vp' = vp + 2 + x" "as1 = as'"
    using assms by (auto simp: emit_vector_def Let_def split: option.splits prod.splits flow.splits if_splits)
  from t(1) have "vp' \<le> vp + 3 + fst (snd st)"
    by (auto simp: emit_trailer_def split: prod.splits if_splits)
  then show ?thesis using emit_inner_size [OF i] t(2) by simp
qed

lemma tx_cleared_tx_number: "tx_cleared as as' \<Longrightarrow> tx_number es as' \<le> tx_number es as"
  unfolding tx_cleared_def by (induction rule: list_all2_induct) auto

lemma emit_vector_tx_number: "tx_number es (snd (emit_vector es eof lv_all vp buf a as)) \<le> tx_number es as"
  by (rule tx_cleared_tx_number) (rule emit_vector_tx_cleared)

lemma emit_loop_size:
  "emit_loop es eof lv_all ptr vp buf found as = (Next (buf', ptr', vp', found'), as') \<Longrightarrow>
   vp' \<le> vp + (em_vectidx es + 3) * tx_number es as"
proof (induction es eof lv_all ptr vp buf found as arbitrary: as' rule: emit_loop.induct)
  case (2 es eof lv_all ptr vp buf found a as)
  show ?case
  proof (cases "ptr + em_vector_size es + 2 < eof")
    case False
    then show ?thesis using "2.prems" by simp
  next
    case room: True
    show ?thesis
    proof (cases "\<not> em_match es (attribute a) \<or> \<not> app_tx (applicant a) \<or> app_encode (applicant a) = MRP_ENCODE_OPTIONAL")
      case True
      then obtain as1 where "emit_loop es eof lv_all ptr vp buf found as = (Next (buf', ptr', vp', found'), as1)"
        using "2.prems" room by (auto simp: Let_def split: prod.splits if_splits)
      then have "vp' \<le> vp + (em_vectidx es + 3) * tx_number es as" using "2.IH"(1,2) room True by auto
      also have "\<dots> \<le> vp + (em_vectidx es + 3) * tx_number es (a # as)" by simp
      finally show ?thesis .
    next
      case False
      then obtain buf1 vp1 as1 as2 where v: "emit_vector es eof lv_all vp buf a as = (Next (buf1, vp1), as1)"
        and l: "emit_loop es eof (lv_all \<and> em_keep_lva es) vp1 vp1 buf1 True as1 = (Next (buf', ptr', vp', found'), as2)"
        using "2.prems" room by (auto simp: Let_def split: prod.splits flow.splits if_splits)
      have "vp' \<le> vp1 + (em_vectidx es + 3) * tx_number es as1"
        by (rule "2.IH"(3) [OF _ _ _ v [symmetric] refl refl l]) (use room False in auto)
      moreover have "vp1 + tx_number es as1 \<le> vp + em_vectidx es + 3 + tx_number es as" using v by (rule emit_vector_size)
      moreover have "tx_number es as1 \<le> tx_number es as" using emit_vector_tx_number [of es eof lv_all vp buf a as] v by simp
      moreover obtain d where d: "tx_number es as = tx_number es as1 + d" using le_Suc_ex calculation(3) by blast
      moreover have "d \<le> (em_vectidx es + 3) * d" by simp
      moreover have "(em_vectidx es + 3) * tx_number es as = (em_vectidx es + 3) * tx_number es as1 + (em_vectidx es + 3) * d"
        by (simp only: d distrib_left)
      ultimately have "vp' \<le> vp + (em_vectidx es + 3) + (em_vectidx es + 3) * tx_number es as" by linarith
      then show ?thesis using False by simp
    qed
  qed
qed simp


lemma emit_message_size:
  assumes "emit_message es buf p0 eof lv_all send_empty as = (Next (buf', n), as')"
  shows "n \<le> em_data es + 2 + (if send_empty then 2 + unat (em_length es) else 0) +
    (em_vectidx es + 3) * tx_number es as"
proof -
  obtain buf0 buf1 ptr vp found where l: "emit_loop es eof lv_all p0 (p0 + em_data es) buf0 False as =
      (Next (buf1, ptr, vp, found), as')"
    and n: "n = 0 \<or> \<not> found \<and> send_empty \<and> n = vp + 2 + unat (em_length es) + 2 - p0 \<or>
      vp \<noteq> p0 + em_data es \<and> n = ptr + 2 - p0"
    using assms by (auto simp: emit_message_def simp del: wr_bytes.simps split: option.splits prod.splits flow.splits if_splits)
  show ?thesis using n emit_loop_end [OF l] emit_loop_size [OF l] by auto
qed

end
