(* ===== verification/Parse.thy ===== *)
theory Parse
  imports Prelude
begin

text \<open>
  The parameter parser the daemons and their clients share
  (\<^verbatim>\<open>daemons/common/parse.c\<close>): a text such as \<^verbatim>\<open>S=0102030405060708,V=0002\<close> is
  matched against a list of named, typed parameters. The buffer handed to \<^verbatim>\<open>parse\<close> is the
  list of its \<open>len\<close> characters. The integer conversions of \<^verbatim>\<open>sscanf\<close> are those of glibc on
  a 64 bit machine.
\<close>

section \<open>Integer conversions of sscanf\<close>

definition isspace :: "char \<Rightarrow> bool" where
  "isspace c \<longleftrightarrow> of_char c \<in> {32 :: nat, 9, 10, 11, 12, 13}"

definition digit_val :: "nat \<Rightarrow> char \<Rightarrow> nat option" where
  "digit_val base c =
     (let n = of_char c :: nat;
          d = (if 48 \<le> n \<and> n \<le> 57 then Some (n - 48)
               else if 97 \<le> n \<and> n \<le> 102 then Some (n - 87)
               else if 65 \<le> n \<and> n \<le> 70 then Some (n - 55)
               else None)
      in case d of None \<Rightarrow> None | Some v \<Rightarrow> if v < base then Some v else None)"

fun digits_val :: "nat \<Rightarrow> nat \<Rightarrow> string \<Rightarrow> nat" where
  "digits_val base acc [] = acc"
| "digits_val base acc (c # s) =
     (case digit_val base c of None \<Rightarrow> acc | Some d \<Rightarrow> digits_val base (acc * base + d) s)"

text \<open>
  \<^verbatim>\<open>%u\<close> (base 10) and \<^verbatim>\<open>%x\<close> (base 16), with an optional field width: white space, a sign, a
  \<^verbatim>\<open>0x\<close> prefix in base 16, digits. \<^verbatim>\<open>strtoull\<close> saturates.
\<close>

definition scan_sign :: "string \<Rightarrow> bool \<times> string" where
  "scan_sign s =
     (case s of [] \<Rightarrow> (False, [])
      | c # r \<Rightarrow> if c = CHR ''-'' then (True, r) else if c = CHR ''+'' then (False, r) else (False, s))"

definition scan_prefix :: "nat \<Rightarrow> string \<Rightarrow> bool \<times> string" where
  "scan_prefix base s =
     (case s of [] \<Rightarrow> (False, [])
      | c # r \<Rightarrow>
          if c = CHR ''0''
          then (True, (case r of [] \<Rightarrow> []
                       | x # r' \<Rightarrow> if base = 16 \<and> (x = CHR ''x'' \<or> x = CHR ''X'') then r' else r))
          else (False, s))"

definition scan_uint :: "nat \<Rightarrow> nat option \<Rightarrow> string \<Rightarrow> u64 option" where
  "scan_uint base width s =
     (let s0 = dropWhile isspace s;
          s1 = (case width of None \<Rightarrow> s0 | Some n \<Rightarrow> take n s0);
          (neg, s2) = scan_sign s1;
          (zero, s3) = scan_prefix base s2;
          ds = takeWhile (\<lambda>c. digit_val base c \<noteq> None) s3;
          n = digits_val base 0 ds
      in if \<not> zero \<and> ds = [] then None
         else if 2 ^ 64 \<le> int n then Some (- 1)
         else if neg then Some (- word_of_nat n) else Some (word_of_nat n))"

section \<open>The parser\<close>

datatype parse_types =
    parse_null | parse_u8 | parse_u16 | parse_u16_04x | parse_u32 | parse_u64 | parse_h64
  | parse_c64 | parse_mac

text \<open>What the parser stores through the pointer \<^verbatim>\<open>v\<close> of a parameter.\<close>

datatype parse_value = V_u8 byte | V_u16 u16 | V_u32 u32 | V_u64 u64 | V_bytes bytes

type_synonym parse_param = "string \<times> parse_types"

definition PARSE_DELIMITER :: char where "PARSE_DELIMITER = CHR '',''"

fun strstr :: "string \<Rightarrow> string \<Rightarrow> string option" where
  "strstr [] needle = (if needle = [] then Some [] else None)"
| "strstr (c # s) needle =
     (if take (length needle) (c # s) = needle then Some (c # s) else strstr s needle)"

text \<open>The loops that unpack a 64 bit value into an array, most significant byte first.\<close>

definition unpack_bytes :: "nat \<Rightarrow> u64 \<Rightarrow> bytes" where
  "unpack_bytes n v = map (\<lambda>i. ucast (drop_bit ((n - 1 - i) * 8) v)) [0..<n]"

definition parse_data :: "parse_types \<Rightarrow> string \<Rightarrow> parse_value option" where
  "parse_data type data =
     (case type of
        parse_null \<Rightarrow> None
      | parse_u8 \<Rightarrow> map_option (\<lambda>v. V_u8 (ucast v)) (scan_uint 10 None data)
      | parse_u16_04x \<Rightarrow> map_option (\<lambda>v. V_u16 (ucast v)) (scan_uint 16 (Some 4) data)
      | parse_u16 \<Rightarrow> map_option (\<lambda>v. V_u16 (ucast v)) (scan_uint 10 None data)
      | parse_u32 \<Rightarrow> map_option (\<lambda>v. V_u32 (ucast v)) (scan_uint 10 None data)
      | parse_u64 \<Rightarrow> map_option V_u64 (scan_uint 10 None data)
      | parse_h64 \<Rightarrow> map_option V_u64 (scan_uint 16 None data)
      | parse_c64 \<Rightarrow> map_option (\<lambda>v. V_bytes (unpack_bytes 8 v)) (scan_uint 16 None data)
      | parse_mac \<Rightarrow> map_option (\<lambda>v. V_bytes (unpack_bytes 6 v)) (scan_uint 16 None data))"

text \<open>
  The loop over the parameters. \<open>ok\<close> is whether the last conversion succeeded (the variable
  \<^verbatim>\<open>result\<close>, which \<^verbatim>\<open>parse_null\<close> leaves alone), \<open>count\<close> the parameters done. The result is
  the return value, \<^verbatim>\<open>*err_index\<close>, and the values stored so far.
\<close>

fun parse_loop ::
  "string \<Rightarrow> parse_param list \<Rightarrow> bool \<Rightarrow> nat \<Rightarrow> int \<times> nat \<times> parse_value option list" where
  "parse_loop s [] ok count = (0, 0, [])"
| "parse_loop s ((name, type) # specs) ok count =
     (case strstr s name of
        None \<Rightarrow> (-1, Suc count, [])
      | Some param \<Rightarrow>
          let data = drop (length name) param;
              field = takeWhile (\<lambda>c. c \<noteq> PARSE_DELIMITER) data;
              rest = drop (length field) data;
              v = parse_data type field;
              ok' = (if type = parse_null then ok else v \<noteq> None)
          in if \<not> ok' then (-1, Suc count, [])
             else let (rc, err, vs) =
                    parse_loop (if rest = [] then s else tl rest) specs ok' (Suc count)
                  in (rc, err, v # vs))"

text \<open>
  \<open>None\<close> in the second component is an \<^verbatim>\<open>*err_index\<close> that is not written: the buffer holds
  no terminating null.
\<close>

definition parse ::
  "string \<Rightarrow> parse_param list \<Rightarrow> int \<times> nat option \<times> parse_value option list" where
  "parse s specs =
     (if CHR 0x00 \<notin> set s then (-1, None, [])
      else let (rc, err, vs) = parse_loop (takeWhile (\<lambda>c. c \<noteq> CHR 0x00) s) specs False 0
           in (rc, Some err, vs))"

text \<open>The parser on a concrete text.\<close>

lemmas parse_eval = parse_def parse_data_def scan_uint_def scan_sign_def scan_prefix_def isspace_def
  digit_val_def PARSE_DELIMITER_def

section \<open>Specification: the printed form of a parameter list\<close>

fun print_value :: "parse_types \<Rightarrow> parse_value \<Rightarrow> string" where
  "print_value parse_u16_04x (V_u16 v) = fmt_04x v"
| "print_value _ (V_u8 v) = fmt_u (unat v)"
| "print_value _ (V_u16 v) = fmt_u (unat v)"
| "print_value _ (V_u32 v) = fmt_u (unat v)"
| "print_value _ (V_u64 v) = fmt_u (unat v)"
| "print_value _ (V_bytes bs) = fmt_hex_bytes bs"

fun value_has_type :: "parse_types \<Rightarrow> parse_value \<Rightarrow> bool" where
  "value_has_type parse_u8 (V_u8 v) = True"
| "value_has_type parse_u16 (V_u16 v) = True"
| "value_has_type parse_u16_04x (V_u16 v) = True"
| "value_has_type parse_u32 (V_u32 v) = True"
| "value_has_type parse_u64 (V_u64 v) = True"
| "value_has_type parse_c64 (V_bytes bs) = (length bs = 8)"
| "value_has_type parse_mac (V_bytes bs) = (length bs = 6)"
| "value_has_type _ _ = False"

definition name_ok :: "string \<Rightarrow> bool" where
  "name_ok name \<longleftrightarrow> name \<noteq> [] \<and> CHR 0x00 \<notin> set name"

fun print_params :: "(parse_param \<times> parse_value) list \<Rightarrow> string" where
  "print_params [] = []"
| "print_params [((name, type), v)] = name @ print_value type v"
| "print_params (((name, type), v) # p # ps) =
     name @ print_value type v @ PARSE_DELIMITER # print_params (p # ps)"

section \<open>Lemmas: conversions undo the printing\<close>

definition plain_digit :: "char \<Rightarrow> bool" where
  "plain_digit c \<longleftrightarrow> digit_val 16 c \<noteq> None \<and> c \<noteq> CHR ''x'' \<and> c \<noteq> CHR ''X''"

lemma plain_digit_char:
  assumes "plain_digit c"
  shows "\<not> isspace c" "c \<noteq> CHR ''-''" "c \<noteq> CHR ''+''" "c \<noteq> PARSE_DELIMITER" "c \<noteq> CHR 0x00"
    "c \<noteq> CHR ''x''" "c \<noteq> CHR ''X''"
  using assms
  by (auto simp: plain_digit_def digit_val_def isspace_def PARSE_DELIMITER_def Let_def split: if_splits)

lemma hex_digits:
  "list_all (\<lambda>d. digit_val 16 (hex_digit d) = Some d \<and> plain_digit (hex_digit d)) [0..<16]"
  unfolding plain_digit_def by code_simp

lemma hex_digit_mod: "hex_digit n = hex_digit (n mod 16)"
  by (simp add: hex_digit_def)

lemma digit_val_hex_digit [simp]: "digit_val 16 (hex_digit n) = Some (n mod 16)"
  using hex_digits hex_digit_mod [of n] unfolding list_all_iff by (metis atLeastLessThan_iff atLeastLessThan_upt le0 mod_less_divisor zero_less_numeral)

lemma plain_digit_hex_digit [simp]: "plain_digit (hex_digit n)"
  using hex_digits hex_digit_mod [of n] unfolding list_all_iff by (metis atLeastLessThan_iff atLeastLessThan_upt le0 mod_less_divisor zero_less_numeral)

definition dec_digit :: "nat \<Rightarrow> char" where
  "dec_digit d = ''0123456789'' ! d"

lemma dec_digit_val:
  assumes "d < 10" shows "digit_val 10 (dec_digit d) = Some d" "plain_digit (dec_digit d)"
proof -
  from assms have "d \<in> {0,1,2,3,4,5,6,7,8,9}" by auto
  then show "digit_val 10 (dec_digit d) = Some d" "plain_digit (dec_digit d)"
    by (auto simp: dec_digit_def digit_val_def plain_digit_def)
qed

lemma digits_val_append:
  assumes "\<forall>c \<in> set s. digit_val base c \<noteq> None"
  shows "digits_val base acc (s @ t) = digits_val base (digits_val base acc s) t"
  using assms by (induction s arbitrary: acc) auto

text \<open>A text of digits, optionally cut by a field width it does not exceed, is read in full.\<close>

lemma scan_uint_digits:
  assumes ne: "s \<noteq> []" and ds: "\<forall>c \<in> set s. digit_val base c \<noteq> None \<and> plain_digit c"
    and w: "case width of None \<Rightarrow> True | Some n \<Rightarrow> length s \<le> n"
    and small: "digits_val base 0 s < 2 ^ 64"
  shows "scan_uint base width s = Some (word_of_nat (digits_val base 0 s))"
proof -
  obtain c r where s: "s = c # r" using ne by (cases s) auto
  have c: "plain_digit c" using ds s by simp
  have sp: "dropWhile isspace s = s" using s plain_digit_char [OF c] by simp
  have cut: "(case width of None \<Rightarrow> s | Some n \<Rightarrow> take n s) = s" using w by (cases width) auto
  have sign: "scan_sign s = (False, s)" using s plain_digit_char [OF c] by (simp add: scan_sign_def)
  have r: "\<forall>x \<in> set r. plain_digit x" using ds s by simp
  have pre: "scan_prefix base s = (c = CHR ''0'', if c = CHR ''0'' then r else s)"
    using s r plain_digit_char(6,7) by (auto simp: scan_prefix_def split: list.splits)
  have tw: "takeWhile (\<lambda>c. digit_val base c \<noteq> None) t = t" if "set t \<subseteq> set s" for t
    using ds that by (auto simp: takeWhile_eq_all_conv)
  have zero: "digits_val base 0 r = digits_val base 0 s" if "c = CHR ''0''"
  proof -
    have "base \<noteq> 0" using ds s by (auto simp: digit_val_def Let_def split: option.splits if_splits)
    then have "digit_val base (CHR ''0'') = Some 0" by (simp add: digit_val_def)
    then show ?thesis using that s by simp
  qed
  have tws: "takeWhile (\<lambda>c. \<exists>y. digit_val base c = Some y) s = s"
    "takeWhile (\<lambda>c. \<exists>y. digit_val base c = Some y) r = r"
    using tw [of s] tw [of r] s by auto
  have "int (digits_val base 0 s) < 2 ^ 64" using small by simp
  then show ?thesis
    using zero ne by (auto simp: scan_uint_def sp cut sign pre Let_def tws)
qed

lemma fmt_u_digits:
  "fmt_u n \<noteq> [] \<and> (\<forall>c \<in> set (fmt_u n). digit_val 10 c \<noteq> None \<and> plain_digit c) \<and>
   digits_val 10 0 (fmt_u n) = n"
proof (induction n rule: fmt_u.induct)
  case (1 n)
  show ?case
  proof (cases "n < 10")
    case True
    then show ?thesis
      using dec_digit_val [of n] by (simp add: fmt_u.simps [of n] dec_digit_def)
  next
    case False
    with "1.IH" show ?thesis
      using dec_digit_val [of "n mod 10"]
      by (auto simp: fmt_u.simps [of n] dec_digit_def digits_val_append)
  qed
qed

text \<open>The value of a big-endian byte sequence.\<close>

fun bytes_val :: "nat \<Rightarrow> bytes \<Rightarrow> nat" where
  "bytes_val acc [] = acc"
| "bytes_val acc (b # bs) = bytes_val (acc * 256 + unat b) bs"

lemma fmt_hex_bytes_digits:
  "(\<forall>c \<in> set (fmt_hex_bytes bs). digit_val 16 c \<noteq> None \<and> plain_digit c) \<and>
   digits_val 16 acc (fmt_hex_bytes bs) = bytes_val acc bs"
proof (induction bs arbitrary: acc)
  case Nil
  then show ?case by (simp add: fmt_hex_bytes_def)
next
  case (Cons b bs)
  have "unat b < 256" by (rule unat_byte_less)
  then have "unat b div 16 mod 16 = unat b div 16" by (simp add: div_less_mono)
  then have "(acc * 16 + unat b div 16 mod 16) * 16 + unat b mod 16 = acc * 256 + unat b" by simp
  with Cons show ?case by (simp add: fmt_hex_bytes_def fmt_02x_def algebra_simps)
qed

lemma bytes_val_less: "bytes_val acc bs < (acc + 1) * 256 ^ length bs"
proof (induction bs arbitrary: acc)
  case Nil
  then show ?case by simp
next
  case (Cons b bs)
  have "unat b < 256" by (rule unat_byte_less)
  then have "acc * 256 + unat b + 1 \<le> (acc + 1) * 256" by simp
  then have "(acc * 256 + unat b + 1) * 256 ^ length bs \<le> (acc + 1) * 256 * 256 ^ length bs"
    by (rule mult_le_mono1)
  moreover have "bytes_val acc (b # bs) < (acc * 256 + unat b + 1) * 256 ^ length bs"
    using Cons [of "acc * 256 + unat b"] by simp
  ultimately show ?case by (simp only: list.size power_Suc mult.assoc add_0_right power_add) simp
qed

lemma bytes_val_append: "bytes_val acc (bs @ cs) = bytes_val (bytes_val acc bs) cs"
  by (induction bs arbitrary: acc) auto

lemma bytes_val_div: "bytes_val acc bs div 256 ^ length bs = acc"
proof (induction bs arbitrary: acc)
  case Nil
  then show ?case by simp
next
  case (Cons b bs)
  have "unat b < 256" by (rule unat_byte_less)
  have "bytes_val acc (b # bs) div 256 ^ length (b # bs) =
        bytes_val (acc * 256 + unat b) bs div 256 ^ length bs div 256"
    by (simp add: div_mult2_eq [symmetric] mult.commute)
  also have "\<dots> = (acc * 256 + unat b) div 256" using Cons by simp
  finally show ?case using \<open>unat b < 256\<close> by simp
qed

lemma drop_bit_word_of_nat:
  assumes "n < 2 ^ 64"
  shows "ucast (drop_bit (k * 8) (word_of_nat n :: u64)) = (word_of_nat (n div 256 ^ k) :: byte)"
proof -
  have "unat (word_of_nat n :: u64) = n" using assms by (simp add: unat_of_nat)
  then have "unat (drop_bit (k * 8) (word_of_nat n :: u64)) = n div 2 ^ (k * 8)"
    by (simp only: unat_drop_bit_eq drop_bit_nat_def)
  moreover have "(2 :: nat) ^ (k * 8) = 256 ^ k"
    by (simp add: power_mult mult.commute [of k]) 
  ultimately have eq: "unat (drop_bit (k * 8) (word_of_nat n :: u64)) = n div 256 ^ k" by simp
  show ?thesis
    unfolding eq [symmetric] by (rule of_nat_unat [symmetric])
qed

lemma unpack_bytes_val:
  assumes "length bs \<le> 8"
  shows "unpack_bytes (length bs) (word_of_nat (bytes_val 0 bs)) = bs"
proof (rule nth_equalityI)
  show "length (unpack_bytes (length bs) (word_of_nat (bytes_val 0 bs))) = length bs"
    by (simp add: unpack_bytes_def)
next
  fix i assume "i < length (unpack_bytes (length bs) (word_of_nat (bytes_val 0 bs)))"
  then have i: "i < length bs" by (simp add: unpack_bytes_def)
  have "bytes_val 0 bs < 256 ^ length bs" using bytes_val_less [of 0 bs] by simp
  also have "\<dots> \<le> (256 :: nat) ^ 8" using assms by (intro power_increasing) auto
  finally have small: "bytes_val 0 bs < 2 ^ 64" by simp
  have split: "bs = take i bs @ bs ! i # drop (Suc i) bs" using i by (simp add: id_take_nth_drop)
  have "bytes_val 0 bs div 256 ^ (length bs - 1 - i) = bytes_val 0 (take i bs) * 256 + unat (bs ! i)"
    using bytes_val_div [of "bytes_val 0 (take i bs) * 256 + unat (bs ! i)" "drop (Suc i) bs"]
    by (subst split) (simp add: bytes_val_append)
  then have "(word_of_nat (bytes_val 0 bs div 256 ^ (length bs - 1 - i)) :: byte) =
      word_of_nat (bytes_val 0 (take i bs)) * 256 + bs ! i"
    by simp
  also have "(256 :: byte) = 0" by simp
  finally have "(word_of_nat (bytes_val 0 bs div 256 ^ (length bs - 1 - i)) :: byte) = bs ! i" by simp
  then show "unpack_bytes (length bs) (word_of_nat (bytes_val 0 bs)) ! i = bs ! i"
    using i drop_bit_word_of_nat [OF small, of "length bs - 1 - i"] by (simp add: unpack_bytes_def)
qed

lemma print_value_digits:
  assumes "value_has_type type v"
  shows "print_value type v \<noteq> []" "\<forall>c \<in> set (print_value type v). plain_digit c"
  using assms fmt_u_digits fmt_hex_bytes_digits
  by (induction type v rule: value_has_type.induct) (auto simp: fmt_04x_def fmt_02x_def fmt_hex_bytes_def)

lemma scan_fmt_u:
  assumes "n < 2 ^ 64"
  shows "scan_uint 10 None (fmt_u n) = Some (word_of_nat n)"
  using scan_uint_digits [of "fmt_u n" 10 None] fmt_u_digits [of n] assms by auto

lemma scan_fmt_hex_bytes:
  assumes "bs \<noteq> []" "length bs \<le> 8" "case width of None \<Rightarrow> True | Some n \<Rightarrow> 2 * length bs \<le> n"
  shows "scan_uint 16 width (fmt_hex_bytes bs) = Some (word_of_nat (bytes_val 0 bs))"
proof -
  have "bytes_val 0 bs < 256 ^ length bs" using bytes_val_less [of 0 bs] by simp
  also have "\<dots> \<le> (256 :: nat) ^ 8" using assms by (intro power_increasing) auto
  finally have small: "bytes_val 0 bs < 2 ^ 64" by simp
  have len: "length (fmt_hex_bytes cs) = 2 * length cs" for cs
    by (induction cs) (simp_all add: fmt_hex_bytes_def)
  then have "fmt_hex_bytes bs \<noteq> []" using assms(1) by (metis length_0_conv mult_is_0 zero_neq_numeral)
  then show ?thesis
    using scan_uint_digits [of "fmt_hex_bytes bs" 16 width] fmt_hex_bytes_digits [of bs 0] small assms(3)
    by (cases width) (auto simp: len)
qed

lemma fmt_04x_eq: "fmt_04x v = fmt_hex_bytes [hi8 v, lo8 v]"
  by (simp add: fmt_04x_def fmt_hex_bytes_def)

lemma bytes_val_hi_lo: "(word_of_nat (bytes_val 0 [hi8 v, lo8 v]) :: u16) = v"
proof -
  have "be16 (hi8 v) (lo8 v) = word_of_nat (unat (hi8 v) * 256 + unat (lo8 v))"
  proof -
    have "push_bit 8 (ucast (hi8 v)) AND (ucast (lo8 v) :: u16) = 0"
      by (rule bit_word_eqI) (auto simp: bit_simps lo8_def)
    then have "be16 (hi8 v) (lo8 v) = push_bit 8 (ucast (hi8 v)) + ucast (lo8 v)"
      unfolding be16_def by (rule disjunctive_add_eq_or [symmetric])
    then show ?thesis by (simp add: push_bit_eq_mult)
  qed
  then show ?thesis by simp
qed

lemma ucast_word_of_nat:
  assumes "n < 2 ^ 64"
  shows "ucast (word_of_nat n :: u64) = (word_of_nat n :: 'a :: len word)"
proof -
  have "unat (word_of_nat n :: u64) = n" using assms by (simp add: unat_of_nat)
  then show ?thesis using of_nat_unat [of "word_of_nat n :: u64"] by metis
qed

lemma scan_fmt_u_unat:
  fixes x :: "'b :: len word"
  assumes "LENGTH('b) \<le> 64"
  shows "scan_uint 10 None (fmt_u (unat x)) = Some (ucast x)"
proof -
  have "unat x < 2 ^ LENGTH('b)" by (rule unsigned_less)
  also have "\<dots> \<le> (2 :: nat) ^ 64" using assms by (intro power_increasing) auto
  finally show ?thesis by (simp add: scan_fmt_u)
qed

lemma parse_data_print:
  assumes "value_has_type type v"
  shows "parse_data type (print_value type v) = Some v"
proof -
  have x: "scan_uint 16 (Some 4) (fmt_04x x) = Some (word_of_nat (bytes_val 0 [hi8 x, lo8 x]))" for x
    using scan_fmt_hex_bytes [of "[hi8 x, lo8 x]" "Some 4"] by (simp add: fmt_04x_eq)
  have small: "bytes_val 0 [hi8 x, lo8 x] < 2 ^ 64" for x
    using bytes_val_less [of 0 "[hi8 x, lo8 x]"] by simp
  have x04: "map_option (\<lambda>v. V_u16 (ucast v)) (scan_uint 16 (Some 4) (fmt_04x x)) = Some (V_u16 x)" for x
    by (simp only: x option.map ucast_word_of_nat [OF small] bytes_val_hi_lo)
  have c: "scan_uint 16 None (fmt_hex_bytes bs) = Some (word_of_nat (bytes_val 0 bs))"
    if "length bs = 8 \<or> length bs = 6" for bs
    using scan_fmt_hex_bytes [of bs None] that by (cases bs) auto
  have b8: "unpack_bytes 8 (word_of_nat (bytes_val 0 bs)) = bs" if "length bs = 8" for bs
    using unpack_bytes_val [of bs] that by simp
  have b6: "unpack_bytes 6 (word_of_nat (bytes_val 0 bs)) = bs" if "length bs = 6" for bs
    using unpack_bytes_val [of bs] that by simp
  show ?thesis
    using assms
    by (cases type; cases v)
       (auto simp: parse_data_def scan_fmt_u_unat x04 c b8 b6 unsigned_ucast_eq
          take_bit_word_eq_self)
qed

lemma strstr_prefix: "name \<noteq> [] \<Longrightarrow> strstr (name @ t) name = Some (name @ t)"
  by (cases name) auto

lemma takeWhile_field:
  assumes "value_has_type type v"
  shows "takeWhile (\<lambda>c. c \<noteq> PARSE_DELIMITER) (print_value type v) = print_value type v"
    "takeWhile (\<lambda>c. c \<noteq> PARSE_DELIMITER) (print_value type v @ PARSE_DELIMITER # t) = print_value type v"
proof -
  have "\<forall>c \<in> set (print_value type v). c \<noteq> PARSE_DELIMITER"
    using print_value_digits [OF assms] plain_digit_char(4) by blast
  then show "takeWhile (\<lambda>c. c \<noteq> PARSE_DELIMITER) (print_value type v) = print_value type v"
    "takeWhile (\<lambda>c. c \<noteq> PARSE_DELIMITER) (print_value type v @ PARSE_DELIMITER # t) = print_value type v"
    by (auto simp: takeWhile_append)
qed

lemma value_not_null: "value_has_type type v \<Longrightarrow> type \<noteq> parse_null"
  by (cases v) auto

lemma parse_loop_print:
  assumes "\<forall>((name, type), v) \<in> set ps. name_ok name \<and> value_has_type type v"
  shows "parse_loop (print_params ps) (map fst ps) ok count = (0, 0, map (Some \<circ> snd) ps)"
  using assms
  by (induction ps arbitrary: ok count rule: print_params.induct)
     (auto simp: name_ok_def strstr_prefix takeWhile_field parse_data_print value_not_null Let_def)

lemma print_params_no_nul:
  assumes "\<forall>((name, type), v) \<in> set ps. name_ok name \<and> value_has_type type v"
  shows "CHR 0x00 \<notin> set (print_params ps)"
  using assms
proof (induction ps rule: print_params.induct)
  case 1
  then show ?case by simp
next
  case (2 name type v)
  then show ?case using print_value_digits(2) [of type v] plain_digit_char(5) by (auto simp: name_ok_def)
next
  case (3 name type v p ps)
  then have "CHR 0x00 \<notin> set (print_params (p # ps))" by auto
  moreover have "CHR 0x00 \<notin> set (print_value type v)"
    using 3 print_value_digits(2) [of type v] plain_digit_char(5) by auto
  ultimately show ?case using 3 by (auto simp: name_ok_def PARSE_DELIMITER_def)
qed

lemma parse_loop_outcome:
  "parse_loop s specs ok count = (rc, err, vs) \<Longrightarrow>
   (rc = 0 \<and> err = 0 \<and> length vs = length specs) \<or>
   (rc = -1 \<and> err = Suc (count + length vs) \<and> length vs < length specs)"
proof (induction specs arbitrary: s ok count rc err vs)
  case (Cons p specs)
  obtain name type where p: "p = (name, type)" by (cases p)
  show ?case
  proof (cases "strstr s name")
    case None
    with Cons.prems p show ?thesis by auto
  next
    case (Some a)
    let ?step = "\<lambda>rest v ok'. if \<not> ok' then (-1, Suc count, [])
      else let (rc, err, vs) = parse_loop (if rest = [] then s else tl rest) specs ok' (Suc count)
           in (rc, err, v # vs)"
    obtain rest v ok' where "?step rest v ok' = (rc, err, vs)"
      using Cons.prems unfolding p parse_loop.simps Some option.case Let_def by blast
    then show ?thesis
      by (auto split: if_splits prod.splits dest!: Cons.IH)
  qed
qed simp

section \<open>Properties\<close>

text \<open>
  C8: Parsing undoes printing. For every list of well named, well typed parameters, the
  text \<^verbatim>\<open>name value,name value,...\<close> followed by a null byte and anything else is accepted by
  \<open>parse\<close> with the parameters as specification: it returns 0, sets the error index to 0 and
  stores exactly the values printed (decimal, four hex digits, stream ids and MAC addresses).
\<close>

theorem parse_print_params:
  assumes "\<forall>((name, type), v) \<in> set ps. name_ok name \<and> value_has_type type v"
  shows "parse (print_params ps @ CHR 0x00 # junk) (map fst ps) = (0, Some 0, map (Some \<circ> snd) ps)"
proof -
  have "takeWhile (\<lambda>c. c \<noteq> CHR 0x00) (print_params ps @ CHR 0x00 # junk) = print_params ps"
    using print_params_no_nul [OF assms] by (simp add: takeWhile_append)
  then show ?thesis
    using parse_loop_print [OF assms] by (simp add: parse_def)
qed

theorem parse_print_params_witness:
  "parse (print_params [((''C='', parse_u8), V_u8 5), ((''V='', parse_u16_04x), V_u16 2),
      ((''M='', parse_mac), V_bytes [1, 2, 3, 4, 5, 6])] @ [CHR 0x00])
     [(''C='', parse_u8), (''V='', parse_u16_04x), (''M='', parse_mac)] =
   (0, Some 0, [Some (V_u8 5), Some (V_u16 2), Some (V_bytes [1, 2, 3, 4, 5, 6])])"
  using parse_print_params [of "[((''C='', parse_u8), V_u8 5), ((''V='', parse_u16_04x), V_u16 2),
      ((''M='', parse_mac), V_bytes [1, 2, 3, 4, 5, 6])]" "[]"]
  by (simp add: name_ok_def)

text \<open>
  C9: What a caller can read from the outcome. Either the parser returns 0, the error index
  is 0 and every parameter of the specification was visited, or it returns -1 and
  the error index is the position, counted from 1, of the first parameter that is missing or
  malformed, all earlier ones being stored; only a buffer without a terminating null is
  refused without an error index.
\<close>

theorem parse_outcome:
  "case parse s specs of (rc, err, vs) \<Rightarrow>
     (rc = 0 \<and> err = Some 0 \<and> length vs = length specs) \<or>
     (rc = -1 \<and> err = Some (Suc (length vs)) \<and> length vs < length specs) \<or>
     (rc = -1 \<and> err = None \<and> vs = [] \<and> CHR 0x00 \<notin> set s)"
proof -
  obtain rc err vs where l: "parse_loop (takeWhile (\<lambda>c. c \<noteq> CHR 0x00) s) specs False 0 = (rc, err, vs)"
    by (metis prod_cases3)
  then show ?thesis
    using parse_loop_outcome [OF l] by (auto simp: parse_def)
qed

end
