(* ===== verification/Mrp_Store.thy ===== *)
theory Mrp_Store
  imports Mrpdu
begin

text \<open>
  What the event handlers of the applications rely on, proved once: the interface of an
  attribute list (lookup, ordered insertion, merge), how the loops of
  \<^verbatim>\<open>Mrp_App\<close> act on the invariant of a database, and the abstraction of a database to the
  set of values it declares and the set it has registered.
\<close>

section \<open>The operating system answers the theorems may assume\<close>

text \<open>Arming a timer succeeds: documented for a valid descriptor and a valid time.\<close>

definition timers_ok :: "os \<Rightarrow> bool" where
  "timers_ok env \<longleftrightarrow> (\<forall>h fd v i. 0 \<le> env (Timerfd_settime fd v i # h))"

text \<open>Allocation succeeds.\<close>

definition malloc_ok :: "os \<Rightarrow> bool" where
  "malloc_ok env \<longleftrightarrow> (\<forall>h n. env (Malloc n # h) \<noteq> 0)"

lemma malloc_ok_True: "malloc_ok env \<Longrightarrow> fst (malloc env n w)"
  by (simp add: malloc_ok_def malloc_def call_os_def)

text \<open>An operating system on which all calls succeed, and a client on it.\<close>

definition example_os :: os where
  "example_os h =
     (case h of Malloc _ # _ \<Rightarrow> 1 | Socket_packet _ # _ \<Rightarrow> 3 | Send _ f # _ \<Rightarrow> int (length f) | _ \<Rightarrow> 0)"

definition example_client :: sockaddr_in where
  "example_client = \<lparr>sin_family = 2, sin_port = 0x8235, sin_addr = 0x7F000001, sin_zero = replicate 8 0\<rparr>"

lemma timers_ok_example [simp]: "timers_ok example_os"
  by (simp add: timers_ok_def example_os_def)

lemma malloc_ok_example [simp]: "malloc_ok example_os"
  by (simp add: malloc_ok_def example_os_def)

section \<open>Abstraction and invariant of an attribute list\<close>

text \<open>The values registered and not on their way out, and what a received event does to one.\<close>

definition in_set :: "'k mrp_attribute list \<Rightarrow> 'k set" where
  "in_set as = attribute ` {a \<in> set as. reg_state (registrar a) = MRP_IN_STATE}"

fun peer_registers :: "bool \<Rightarrow> mrp_event \<Rightarrow> bool" where
  "peer_registers x MRP_EVENT_RNEW = True"
| "peer_registers x MRP_EVENT_RJOININ = True"
| "peer_registers x MRP_EVENT_RJOINMT = True"
| "peer_registers x MRP_EVENT_RLV = False"
| "peer_registers x _ = x"

definition received_events :: "mrp_event set" where
  "received_events = {MRP_EVENT_RNEW, MRP_EVENT_RJOININ, MRP_EVENT_RJOINMT, MRP_EVENT_RLV, MRP_EVENT_RIN, MRP_EVENT_RMT}"

definition declared_set :: "'k mrp_attribute list \<Rightarrow> 'k set" where
  "declared_set as = attribute ` {a \<in> set as. declares (app_state (applicant a))}"

definition registered_set :: "'k mrp_attribute list \<Rightarrow> 'k set" where
  "registered_set as = attribute ` {a \<in> set as. reg_state (registrar a) \<noteq> MRP_MT_STATE}"

text \<open>A leaving attribute has the leave timer running, so the registration ends.\<close>

definition lv_ok1 :: "'k mrp_attribute \<Rightarrow> mrp_database \<Rightarrow> bool" where
  "lv_ok1 a db \<longleftrightarrow> (reg_state (registrar a) = MRP_LV_STATE \<longrightarrow> lv_timer_running db)"

definition lv_ok :: "'k mrp_attribute list \<Rightarrow> mrp_database \<Rightarrow> bool" where
  "lv_ok as db \<longleftrightarrow> (\<forall>a \<in> set as. lv_ok1 a db)"

definition notified :: "'k mrp_attribute \<Rightarrow> bool" where
  "notified a \<longleftrightarrow> reg_notify (registrar a) = MRP_NOTIFY_NONE"

text \<open>The order of a list, as a property of the identifiers of its attributes.\<close>

definition keys_sorted :: "('k \<Rightarrow> 'i) \<Rightarrow> ('i list \<Rightarrow> bool) \<Rightarrow> 'k mrp_attribute list \<Rightarrow> bool" where
  "keys_sorted ident ordered as \<longleftrightarrow> ordered (map (\<lambda>a. ident (attribute a)) as)"

text \<open>An order that survives the removal of elements.\<close>

definition hereditary :: "('i list \<Rightarrow> bool) \<Rightarrow> bool" where
  "hereditary ordered \<longleftrightarrow> (\<forall>xs ys. subseq xs ys \<longrightarrow> ordered ys \<longrightarrow> ordered xs)"

definition app_inv :: "('k \<Rightarrow> 'i) \<Rightarrow> ('i list \<Rightarrow> bool) \<Rightarrow> ('k, 'z) mrp_app_scheme \<Rightarrow> bool" where
  "app_inv ident ordered db \<longleftrightarrow>
     keys_sorted ident ordered (attrib_list db) \<and>
     (\<forall>a \<in> set (attrib_list db). sendable a \<and> notified a) \<and>
     lv_ok (attrib_list db) (mrp_db db) \<and> \<not> send_empty_LeaveAll_flag db"

text \<open>Two lists agree on the values and on what is declared, position by position.\<close>

definition same_declared :: "'k mrp_attribute list \<Rightarrow> 'k mrp_attribute list \<Rightarrow> bool" where
  "same_declared as as' \<longleftrightarrow>
     map (\<lambda>a. (attribute a, declares (app_state (applicant a)))) as' =
     map (\<lambda>a. (attribute a, declares (app_state (applicant a)))) as"

lemma same_declared_refl [simp]: "same_declared as as"
  by (simp add: same_declared_def)

lemma same_declared_trans: "same_declared as bs \<Longrightarrow> same_declared bs cs \<Longrightarrow> same_declared as cs"
  by (simp add: same_declared_def)

lemma same_declared_Cons [simp]:
  "same_declared (a # as) (b # bs) \<longleftrightarrow>
     attribute b = attribute a \<and> declares (app_state (applicant b)) = declares (app_state (applicant a)) \<and>
     same_declared as bs"
  by (auto simp: same_declared_def)

lemma same_declared_keys: "same_declared as bs \<Longrightarrow> map attribute bs = map attribute as"
  unfolding same_declared_def by (drule arg_cong [where f = "map fst"]) (simp add: comp_def)

lemma declared_set_alt:
  "declared_set as = fst ` {p \<in> set (map (\<lambda>a. (attribute a, declares (app_state (applicant a)))) as). snd p}"
  unfolding declared_set_def by force

lemma declared_ids_iff:
  "x \<in> ident ` declared_set as \<longleftrightarrow> (\<exists>a \<in> set as. x = ident (attribute a) \<and> declares (app_state (applicant a)))"
  by (auto simp: declared_set_def)

lemma in_ids_iff:
  "x \<in> ident ` in_set as \<longleftrightarrow> (\<exists>a \<in> set as. x = ident (attribute a) \<and> reg_state (registrar a) = MRP_IN_STATE)"
  by (auto simp: in_set_def)

lemma same_declared_set: "same_declared as bs \<Longrightarrow> declared_set bs = declared_set as"
  unfolding declared_set_alt same_declared_def by simp

lemma keys_sorted_cong: "map attribute bs = map attribute as \<Longrightarrow> keys_sorted ident ordered bs = keys_sorted ident ordered as"
proof -
  assume "map attribute bs = map attribute as"
  then have "map ident (map attribute bs) = map ident (map attribute as)" by simp
  then show ?thesis by (simp add: keys_sorted_def comp_def)
qed

section \<open>Lemmas on one attribute\<close>

lemma declares_attrib_applicant:
  "declares (app_state (applicant (attrib_applicant p2p e a))) = mad_declared (declares (app_state (applicant a))) e"
  by (simp add: attrib_applicant_def mrp_applicant_fsm_declares)

lemma sendable_attrib_applicant: "sendable a \<Longrightarrow> sendable (attrib_applicant p2p e a)"
proof (cases "applicant_switch p2p (app_state (applicant a)) e (mrp_registrar_in (registrar a))")
  case None
  then show "sendable a \<Longrightarrow> ?thesis" by (simp add: sendable_def attrib_applicant_def mrp_applicant_fsm_def)
next
  case (Some x)
  obtain s tx optional m where x: "x = (s, tx, optional, m)" by (metis prod_cases4)
  then show "sendable a \<Longrightarrow> ?thesis"
    using Some applicant_switch_message [of p2p "app_state (applicant a)" e "mrp_registrar_in (registrar a)" s optional m]
    by (cases tx) (auto simp: sendable_def attrib_applicant_def mrp_applicant_fsm_def)
qed

text \<open>A registrar step changes the database by starting the leave timer at most.\<close>

definition lv_step :: "mrp_database \<Rightarrow> mrp_database \<Rightarrow> bool" where
  "lv_step db db' \<longleftrightarrow> db' = db \<or> db' = db\<lparr>lv_timer_running := True\<rparr>"

lemma lv_step_refl [simp]: "lv_step db db"
  by (simp add: lv_step_def)

lemma lv_step_trans: "lv_step db db' \<Longrightarrow> lv_step db' db'' \<Longrightarrow> lv_step db db''"
  by (auto simp: lv_step_def)

lemma lv_step_running: "lv_step db db' \<Longrightarrow> lv_timer_running db \<Longrightarrow> lv_timer_running db'"
  by (auto simp: lv_step_def)

lemma lv_ok1_step: "lv_ok1 a db \<Longrightarrow> lv_step db db' \<Longrightarrow> lv_ok1 a db'"
  by (auto simp: lv_ok1_def dest: lv_step_running)

lemma lv_ok_step: "lv_ok as db \<Longrightarrow> lv_step db db' \<Longrightarrow> lv_ok as db'"
  by (auto simp: lv_ok_def intro: lv_ok1_step)

lemma lv_ok_Nil [simp]: "lv_ok [] db"
  by (simp add: lv_ok_def)

lemma lv_ok_Cons [simp]: "lv_ok (a # as) db \<longleftrightarrow> lv_ok1 a db \<and> lv_ok as db"
  by (auto simp: lv_ok_def)

lemma mrp_lvtimer_start_step:
  "mrp_lvtimer_start env db w = (rc, db', w') \<Longrightarrow>
     lv_step db db' \<and> extends w w' \<and> (timers_ok env \<longrightarrow> lv_timer_running db')"
  by (auto simp: mrp_lvtimer_start_def mrpd_timer_start_def mrpd_timer_start_interval_def call_os_def
      lv_step_def timers_ok_def extends_def intro: exI [of _ "[_]"] split: if_splits)

lemma attrib_registrar_step:
  assumes "attrib_registrar env e a db w = (a', db', w')"
  shows "lv_step db db' \<and> extends w w' \<and> attribute a' = attribute a \<and> applicant a' = applicant a \<and>
    (timers_ok env \<longrightarrow> lv_ok1 a db \<longrightarrow> lv_ok1 a' db')"
proof (cases "registrar_switch (reg_state (registrar a)) e")
  case None
  with assms show ?thesis by (auto simp: attrib_registrar_def mrp_registrar_fsm_def)
next
  case (Some x)
  obtain s n t where x: "x = (s, n, t)" by (metis prod_cases3)
  show ?thesis
  proof (cases t)
    case False
    then have "s = MRP_LV_STATE \<longrightarrow> reg_state (registrar a) = MRP_LV_STATE"
      using Some x registrar_switch_LV by blast
    with False assms Some x show ?thesis
      by (auto simp: attrib_registrar_def mrp_registrar_fsm_def lv_ok1_def)
  next
    case True
    obtain rc db1 w1 where "mrp_lvtimer_start env db w = (rc, db1, w1)" by (metis prod_cases3)
    with mrp_lvtimer_start_step [OF this] True assms Some x show ?thesis
      by (auto simp: attrib_registrar_def mrp_registrar_fsm_def lv_ok1_def)
  qed
qed

lemma attrib_event_cases:
  obtains e' where "\<And>a db w. attrib_event env event a db w =
      attrib_registrar env (e' a) (attrib_applicant (p2pmac w) event a) db w" "event \<noteq> MRP_EVENT_NEW"
  | "event = MRP_EVENT_NEW"
proof (cases "event = MRP_EVENT_NEW")
  case False
  show thesis
  proof (rule that(1))
    show "attrib_event env event a db w =
      attrib_registrar env
        (case event of MRP_EVENT_JOIN \<Rightarrow>
           if reg_state (registrar a) = MRP_IN_STATE then MRP_EVENT_RJOININ else MRP_EVENT_RJOINMT
         | MRP_EVENT_LV \<Rightarrow> MRP_EVENT_RLV | _ \<Rightarrow> event)
        (attrib_applicant (p2pmac w) event a) db w" for a :: "'a mrp_attribute" and db w
      using False by (cases event) (simp_all add: attrib_event_def Let_def)
  qed (rule False)
qed (rule that(2))

lemma attrib_event_step:
  assumes "attrib_event env e a db w = (a', db', w')"
  shows "lv_step db db' \<and> extends w w' \<and> attribute a' = attribute a \<and>
    applicant a' = applicant (attrib_applicant (p2pmac w) e a) \<and>
    (timers_ok env \<longrightarrow> lv_ok1 a db \<longrightarrow> lv_ok1 a' db')"
proof -
  have lv: "lv_ok1 (attrib_applicant p2p e a) d = lv_ok1 a d" for p2p d by (simp add: lv_ok1_def)
  show ?thesis
  proof (rule attrib_event_cases [of env e])
    fix e' :: "'a mrp_attribute \<Rightarrow> mrp_event"
    assume "\<And>a db w. attrib_event env e a db w =
      attrib_registrar env (e' a) (attrib_applicant (p2pmac w) e a) db w"
    with assms attrib_registrar_step [of env "e' a" "attrib_applicant (p2pmac w) e a" db w a' db' w'] show ?thesis
      by (simp add: lv)
  next
    assume "e = MRP_EVENT_NEW"
    obtain a1 db1 w1 where r: "attrib_registrar env MRP_EVENT_BEGIN (attrib_applicant (p2pmac w) e a) db w = (a1, db1, w1)"
      by (metis prod_cases3)
    then show ?thesis
      using assms attrib_registrar_step [OF r] \<open>e = MRP_EVENT_NEW\<close>
      by (auto simp: attrib_event_def Let_def lv) (auto simp: lv_ok1_def)
  qed
qed

lemma sendable_applicant_eq: "applicant a' = applicant a \<Longrightarrow> sendable a' = sendable a"
  by (simp add: sendable_def)

section \<open>Lemmas on the timers\<close>

text \<open>The join and LeaveAll timers leave the leave timer and the clients alone.\<close>

definition timer_frame :: "mrp_database \<Rightarrow> mrp_database \<Rightarrow> bool" where
  "timer_frame db db' \<longleftrightarrow> lv_timer_running db' = lv_timer_running db \<and> clients db' = clients db"

lemma timer_frame_refl [simp]: "timer_frame db db"
  by (simp add: timer_frame_def)

lemma timer_frame_trans: "timer_frame db db' \<Longrightarrow> timer_frame db' db'' \<Longrightarrow> timer_frame db db''"
  by (simp add: timer_frame_def)

lemma timer_frame_lv_ok: "timer_frame db db' \<Longrightarrow> lv_ok as db' = lv_ok as db"
  by (simp add: timer_frame_def lv_ok_def lv_ok1_def)

lemma mrp_jointimer_start_frame:
  "mrp_jointimer_start env db w = (rc, db', w') \<Longrightarrow> timer_frame db db' \<and> extends w w'"
  by (auto simp: mrp_jointimer_start_def mrpd_timer_start_def mrpd_timer_start_interval_def
      timer_frame_def split: if_splits prod.splits) (metis extends_call_os snd_conv)+

lemma mrp_jointimer_stop_frame:
  "mrp_jointimer_stop env db w = (rc, db', w') \<Longrightarrow> timer_frame db db' \<and> extends w w'"
  by (auto simp: mrp_jointimer_stop_def mrpd_timer_stop_def timer_frame_def split: prod.splits)
     (metis extends_call_os snd_conv)

lemma mrp_lvatimer_stop_frame:
  "mrp_lvatimer_stop env db w = (rc, db', w') \<Longrightarrow> timer_frame db db' \<and> extends w w'"
  by (auto simp: mrp_lvatimer_stop_def mrpd_timer_stop_def timer_frame_def split: prod.splits)
     (metis extends_call_os snd_conv)

lemma mrp_lvatimer_start_frame:
  "mrp_lvatimer_start env db w = (rc, db', w') \<Longrightarrow> timer_frame db db' \<and> extends w w'"
  by (auto simp: mrp_lvatimer_start_def mrpd_timer_start_def mrpd_timer_start_interval_def
      timer_frame_def split: if_splits prod.splits) (metis extends_call_os extends_trans snd_conv)+

lemma lvatimer_restart_frame:
  assumes "lvatimer_restart env db w = (db', w')"
  shows "timer_frame db db' \<and> extends w w'"
proof -
  obtain r1 d1 w1 where s: "mrp_lvatimer_stop env db w = (r1, d1, w1)" by (metis prod_cases3)
  obtain r2 d2 w2 where t: "mrp_lvatimer_start env d1 w1 = (r2, d2, w2)" by (metis prod_cases3)
  show ?thesis
    using assms s t mrp_lvatimer_stop_frame [OF s] mrp_lvatimer_start_frame [OF t]
    by (auto simp: lvatimer_restart_def intro: timer_frame_trans extends_trans)
qed

lemma lva_store_frame [simp]: "timer_frame db (lva_store s m t db') = timer_frame db db'"
  by (simp add: timer_frame_def lva_store_def)

lemma mrp_lvatimer_fsm_frame:
  assumes "mrp_lvatimer_fsm env db e w = (rc, db', w')"
  shows "timer_frame db db' \<and> extends w w'"
proof -
  obtain r1 d1 w1 where s: "mrp_lvatimer_start env db w = (r1, d1, w1)" by (metis prod_cases3)
  obtain d2 w2 where t: "lvatimer_restart env db w = (d2, w2)" by (metis prod.exhaust)
  show ?thesis
    using assms s t mrp_lvatimer_start_frame [OF s] lvatimer_restart_frame [OF t]
    by (cases e) (auto simp: mrp_lvatimer_fsm_def split: if_splits)
qed

section \<open>Lemmas on the loops\<close>

lemma attribs_leaveall_step:
  assumes "attribs_leaveall env e c as db w = (as', db', w')" and "e \<in> {MRP_EVENT_TXLA, MRP_EVENT_RLA}"
  shows "lv_step db db' \<and> extends w w' \<and> same_declared as as' \<and>
    ((\<forall>a \<in> set as. sendable a) \<longrightarrow> (\<forall>a \<in> set as'. sendable a)) \<and>
    (timers_ok env \<longrightarrow> lv_ok as db \<longrightarrow> lv_ok as' db')"
  using assms(1)
proof (induction as arbitrary: db w as' db' w')
  case Nil
  then show ?case by (simp add: lv_ok_def)
next
  case (Cons a as)
  show ?case
  proof (cases "c (attribute a)")
    case False
    obtain bs db1 w1 where "attribs_leaveall env e c as db w = (bs, db1, w1)" by (metis prod_cases3)
    with Cons.IH [OF this] Cons.prems False lv_ok1_step [of a db db1] show ?thesis
      by auto
  next
    case True
    let ?a = "attrib_applicant (p2pmac w) e a"
    obtain a1 db1 w1 where r: "attrib_registrar env e ?a db w = (a1, db1, w1)" by (metis prod_cases3)
    obtain bs db2 w2 where l: "attribs_leaveall env e c as db1 w1 = (bs, db2, w2)" by (metis prod_cases3)
    have res: "as' = a1 # bs" "db' = db2" "w' = w2" using Cons.prems True r l by auto
    note R = attrib_registrar_step [OF r] and L = Cons.IH [OF l]
    have d: "declares (app_state (applicant a1)) = declares (app_state (applicant a))"
      using R assms(2) by (auto simp: declares_attrib_applicant)
    have s: "sendable a \<longrightarrow> sendable a1"
      using R sendable_applicant_eq [of a1 ?a] sendable_attrib_applicant [of a] by simp
    have v: "lv_ok1 ?a db = lv_ok1 a db" by (simp add: lv_ok1_def)
    have "lv_ok1 a1 db2" if "timers_ok env" "lv_ok1 a db"
      using R L that v lv_ok1_step [of a1 db1 db2] by blast
    then show ?thesis
      using R L d s lv_step_trans [of db db1 db2] extends_trans [of w w1 w2] lv_ok_step [of as db db1]
      unfolding res by auto
  qed
qed

lemma attribs_applicant_same_declared:
  "e \<in> {MRP_EVENT_TX, MRP_EVENT_PERIODIC} \<Longrightarrow> same_declared as (attribs_applicant p2p e as)"
  by (induction as) (auto simp: attribs_applicant_def same_declared_def declares_attrib_applicant)

lemma attribs_applicant_sendable:
  "\<forall>a \<in> set as. sendable a \<Longrightarrow> \<forall>a \<in> set (attribs_applicant p2p e as). sendable a"
  by (auto simp: attribs_applicant_def intro: sendable_attrib_applicant)

lemma attribs_applicant_registrar: "map registrar (attribs_applicant p2p e as) = map registrar as"
  by (simp add: attribs_applicant_def)

lemma lv_ok_alt: "lv_ok as db \<longleftrightarrow> (MRP_LV_STATE \<in> reg_state ` registrar ` set as \<longrightarrow> lv_timer_running db)"
  unfolding lv_ok_def lv_ok1_def image_iff bex_simps by metis

lemma lv_ok_registrar_cong: "map registrar bs = map registrar as \<Longrightarrow> lv_ok bs db = lv_ok as db"
  unfolding lv_ok_alt by (metis list.set_map)

lemma tx_cleared_same_declared: "tx_cleared as bs \<Longrightarrow> same_declared as bs"
  unfolding tx_cleared_def by (induction rule: list_all2_induct) auto

lemma tx_cleared_sendable: "tx_cleared as bs \<Longrightarrow> \<forall>a \<in> set as. sendable a \<Longrightarrow> \<forall>a \<in> set bs. sendable a"
  unfolding tx_cleared_def by (induction rule: list_all2_induct) auto

text \<open>Notification only clears the notification flags; what it sends is up to \<open>send\<close>.\<close>

lemma attribs_notify_step:
  assumes "\<And>a n w. extends w (send a n w)"
  shows "extends w (snd (attribs_notify send as w))"
  using assms
proof (induction as arbitrary: w)
  case (Cons a as)
  then show ?case by (simp add: Let_def case_prod_unfold) (meson extends_trans)
qed simp

lemma attribs_notify_same_declared: "same_declared as (fst (attribs_notify send as w))"
  by (induction as arbitrary: w) (auto simp: Let_def case_prod_unfold)

lemma attribs_notify_reg_states:
  "map (reg_state \<circ> registrar) (fst (attribs_notify send as w)) = map (reg_state \<circ> registrar) as"
  by (induction as arbitrary: w) (auto simp: Let_def case_prod_unfold)

lemma attribs_notify_applicants:
  "map applicant (fst (attribs_notify send as w)) = map applicant as"
  by (induction as arbitrary: w) (auto simp: Let_def case_prod_unfold)

lemma attribs_notify_sendable:
  "(\<forall>a \<in> set (fst (attribs_notify send as w)). sendable a) = (\<forall>a \<in> set as. sendable a)"
  by (induction as arbitrary: w) (auto simp: Let_def case_prod_unfold sendable_def)

lemma attribs_notify_lv_ok: "lv_ok (fst (attribs_notify send as w)) db = lv_ok as db"
  by (induction as arbitrary: w) (auto simp: Let_def case_prod_unfold lv_ok1_def)

lemma extends_send_to_clients [simp, intro]: "extends w (send_to_clients env cs msg w)"
proof (induction cs arbitrary: w)
  case (Cons c cs)
  have "extends w (snd (mrpd_send_ctl_msg env c msg MAX_MRPD_CMDSZ w))" by (simp add: mrpd_send_ctl_msg_def)
  with Cons show ?case by (auto intro: extends_trans)
qed simp

lemma extends_alloc_notify_bufs [simp, intro]: "extends w (snd (alloc_notify_bufs env w))"
  unfolding alloc_notify_bufs_def
  by (simp add: Let_def case_prod_unfold) (meson extends_trans extends_malloc)

section \<open>The interface of an attribute list\<close>

lemma attrib_event_received:
  assumes "attrib_event env e a db w = (a', db', w')" "e \<in> received_events"
  shows "reg_state (registrar a') = MRP_IN_STATE \<longleftrightarrow>
    peer_registers (reg_state (registrar a) = MRP_IN_STATE) e"
  using assms mrp_registrar_fsm_reg [of env "registrar a" db e w]
  by (auto simp: received_events_def attrib_event_def attrib_registrar_def Let_def attrib_applicant_def
      split: prod.splits if_splits)

text \<open>
  What an application promises of its lookup, insertion and merge operations: the lookup
  finds an attribute with the same identifier and fails only if there is none, insertion links the
  new attribute at the position that keeps the list ordered, and merging leaves the Applicant
  alone and does not put the Registrar into the leave state.
\<close>

locale attrib_store =
  fixes look :: "'k mrp_attribute list \<Rightarrow> 'k mrp_attribute \<Rightarrow> nat option"
    and add :: "'k mrp_attribute list \<Rightarrow> 'k mrp_attribute \<Rightarrow> nat \<times> 'k mrp_attribute list"
    and merge :: "'k mrp_attribute \<Rightarrow> 'k mrp_attribute \<Rightarrow> 'k mrp_attribute"
    and ident :: "'k \<Rightarrow> 'i"
    and ordered :: "'i list \<Rightarrow> bool"
  assumes look_Some: "look as r = Some i \<Longrightarrow> i < length as \<and> ident (attribute (as ! i)) = ident (attribute r)"
    and look_None: "look as r = None \<Longrightarrow> a \<in> set as \<Longrightarrow> ident (attribute a) \<noteq> ident (attribute r)"
    and add_inserts: "add as r = (i, as') \<Longrightarrow> i \<le> length as \<and> as' = insert_at i r as"
    and add_sorted: "keys_sorted ident ordered as \<Longrightarrow> look as r = None \<Longrightarrow>
          keys_sorted ident ordered (snd (add as r))"
    and ordered_distinct: "ordered xs \<Longrightarrow> distinct xs"
    and merge_ident: "ident (attribute (merge r a)) = ident (attribute a)"
    and merge_applicant: "applicant (merge r a) = applicant a"
    and merge_lv: "reg_state (registrar (merge r a)) = MRP_LV_STATE \<Longrightarrow> reg_state (registrar a) = MRP_LV_STATE"
begin

lemma sorted_distinct:
  assumes "keys_sorted ident ordered as"
  shows "distinct (map (\<lambda>a. ident (attribute a)) as)"
  using assms ordered_distinct by (simp add: keys_sorted_def)

text \<open>The attribute an event works on: the stored one with the news merged in, or the new one.\<close>

lemma event_split:
  assumes "attribs_event look add merge env e r as db w = (i, as', db', w')"
  obtains as1 a where "i < length as1" "ident (attribute (as1 ! i)) = ident (attribute r)"
    "attrib_event env e (as1 ! i) db w = (a, db', w')" "as' = as1[i := a]"
    "(\<exists>j. look as r = Some j \<and> i = j \<and> as1 = as[j := merge r (as ! j)]) \<or>
     (look as r = None \<and> i \<le> length as \<and> as1 = insert_at i r as)"
proof (cases "look as r")
  case None
  obtain k as1 where ad: "add as r = (k, as1)" by (cases "add as r")
  then have k: "k \<le> length as" "as1 = insert_at k r as" using add_inserts by auto
  show thesis
    by (rule that [of as1 "as' ! i"]) (use None ad k assms in \<open>auto simp: attribs_event_def Let_def split: prod.splits\<close>)
next
  case (Some j)
  then have "j < length as" "ident (attribute (as ! j)) = ident (attribute r)" using look_Some by auto
  with Some assms show thesis
    by (intro that [of "as[j := merge r (as ! j)]" "as' ! i"])
       (auto simp: attribs_event_def Let_def merge_ident split: prod.splits)
qed

lemma event_sorted:
  assumes ev: "attribs_event look add merge env e r as db w = (i, as', db', w')"
    and srt: "keys_sorted ident ordered as"
  shows "keys_sorted ident ordered as'"
proof -
  let ?ids = "\<lambda>as. map (\<lambda>a. ident (attribute a)) as"
  from ev show ?thesis
  proof (rule event_split)
    fix as1 a
    assume s: "i < length as1" "attrib_event env e (as1 ! i) db w = (a, db', w')" "as' = as1[i := a]"
      "(\<exists>j. look as r = Some j \<and> i = j \<and> as1 = as[j := merge r (as ! j)]) \<or>
       (look as r = None \<and> i \<le> length as \<and> as1 = insert_at i r as)"
    have "?ids as' = ?ids as1"
      using s(1) attrib_event_step [OF s(2)] by (simp add: s(3) map_update list_update_same_conv)
    moreover have "keys_sorted ident ordered as1"
      using s(4)
    proof
      assume "\<exists>j. look as r = Some j \<and> i = j \<and> as1 = as[j := merge r (as ! j)]"
      then have "?ids as1 = ?ids as"
        using look_Some by (auto simp: map_update merge_ident list_update_same_conv)
      with srt show ?thesis by (simp add: keys_sorted_def)
    next
      assume n: "look as r = None \<and> i \<le> length as \<and> as1 = insert_at i r as"
      have "keys_sorted ident ordered (snd (add as r))" using add_sorted srt n by blast
      moreover obtain k where "add as r = (k, insert_at k r as)" using add_inserts by (metis prod.exhaust)
      ultimately show ?thesis using ev n by (auto simp: attribs_event_def Let_def split: prod.splits)
    qed
    ultimately show ?thesis by (simp add: keys_sorted_def)
  qed
qed

text \<open>The list after an event: one attribute is replaced or added, all others are kept.\<close>

lemma event_set:
  assumes ev: "attribs_event look add merge env e r as db w = (i, as', db', w')"
    and srt: "keys_sorted ident ordered as"
  obtains b where "set as' = insert (as' ! i) {x \<in> set as. ident (attribute x) \<noteq> ident (attribute r)}"
    "i < length as'" "ident (attribute b) = ident (attribute r)"
    "attrib_event env e b db w = (as' ! i, db', w')"
    "(look as r = None \<and> b = r) \<or> (\<exists>x \<in> set as. ident (attribute x) = ident (attribute r) \<and> b = merge r x)"
  using ev
proof (rule event_split)
  fix as1 a
  assume s: "i < length as1" "ident (attribute (as1 ! i)) = ident (attribute r)"
    "attrib_event env e (as1 ! i) db w = (a, db', w')" "as' = as1[i := a]"
    "(\<exists>j. look as r = Some j \<and> i = j \<and> as1 = as[j := merge r (as ! j)]) \<or>
     (look as r = None \<and> i \<le> length as \<and> as1 = insert_at i r as)"
  have rest: "set as' = insert a {x \<in> set as. ident (attribute x) \<noteq> ident (attribute r)} \<and>
     ((look as r = None \<and> as1 ! i = r) \<or>
      (\<exists>x \<in> set as. ident (attribute x) = ident (attribute r) \<and> as1 ! i = merge r x))"
    using s(5)
  proof
    assume "\<exists>j. look as r = Some j \<and> i = j \<and> as1 = as[j := merge r (as ! j)]"
    then have l: "look as r = Some i" and as1: "as1 = as[i := merge r (as ! i)]" by auto
    have i: "i < length as" "ident (attribute (as ! i)) = ident (attribute r)" using look_Some [OF l] by auto
    have dist: "distinct (map (\<lambda>a. ident (attribute a)) as)" by (rule sorted_distinct [OF srt])
    have "as' = as[i := a]" by (simp add: s(4) as1)
    then have "set as' = insert a (set as - {as ! i})"
      using set_update_distinct [of as i a] dist i(1) by (simp add: distinct_map)
    moreover have "ident (attribute x) \<noteq> ident (attribute r)" if "x \<in> set as" "x \<noteq> as ! i" for x
    proof -
      from that obtain k where "k < length as" "x = as ! k" "k \<noteq> i" by (metis in_set_conv_nth)
      then show ?thesis using dist i by (simp add: distinct_conv_nth) metis
    qed
    ultimately show ?thesis using i as1 s(1) by auto
  next
    assume n: "look as r = None \<and> i \<le> length as \<and> as1 = insert_at i r as"
    then have "\<forall>x \<in> set as. ident (attribute x) \<noteq> ident (attribute r)" using look_None by blast
    moreover have "set as' = insert a (set as)"
      using n by (auto simp: s(4) insert_at_def list_update_append dest: in_set_takeD in_set_dropD)
        (metis Un_iff append_take_drop_id set_append)
    ultimately show ?thesis using n by auto
  qed
  show thesis
    by (rule that [of "as1 ! i"]) (use s rest in auto)
qed

lemma event_sendable:
  assumes "attribs_event look add merge env e r as db w = (i, as', db', w')" "keys_sorted ident ordered as"
    and "\<forall>a \<in> set as. sendable a" "sendable r"
  shows "\<forall>a \<in> set as'. sendable a"
  using assms(1,2)
proof (rule event_set)
  fix b
  assume b: "set as' = insert (as' ! i) {x \<in> set as. ident (attribute x) \<noteq> ident (attribute r)}"
    "attrib_event env e b db w = (as' ! i, db', w')"
    "(look as r = None \<and> b = r) \<or> (\<exists>x \<in> set as. ident (attribute x) = ident (attribute r) \<and> b = merge r x)"
  have "sendable b" using b(3) assms(3,4) sendable_applicant_eq [OF merge_applicant] by auto
  then have "sendable (as' ! i)"
    using attrib_event_step [OF b(2)] sendable_applicant_eq [of "as' ! i"] sendable_attrib_applicant by blast
  then show ?thesis using b(1) assms(3) by auto
qed

lemma event_lv:
  assumes "attribs_event look add merge env e r as db w = (i, as', db', w')" "keys_sorted ident ordered as"
    and "timers_ok env" "lv_ok as db" "lv_ok1 r db"
  shows "lv_ok as' db'"
  using assms(1,2)
proof (rule event_set)
  fix b
  assume b: "set as' = insert (as' ! i) {x \<in> set as. ident (attribute x) \<noteq> ident (attribute r)}"
    "attrib_event env e b db w = (as' ! i, db', w')"
    "(look as r = None \<and> b = r) \<or> (\<exists>x \<in> set as. ident (attribute x) = ident (attribute r) \<and> b = merge r x)"
  have "lv_ok1 b db" using b(3) assms(4,5) by (auto simp: lv_ok1_def lv_ok_def dest: merge_lv)
  then have "lv_ok1 (as' ! i) db'" "lv_step db db'" using attrib_event_step [OF b(2)] assms(3) by auto
  then show ?thesis using b(1) lv_ok_step [OF assms(4)] by (auto simp: lv_ok_def)
qed

lemma event_frame:
  assumes "attribs_event look add merge env e r as db w = (i, as', db', w')"
  shows "lv_step db db' \<and> extends w w'"
  using assms by (rule event_split) (metis attrib_event_step)

text \<open>
  The attribute an event works on has a property the merge keeps exactly if the value of the
  event had it before.
\<close>

lemma event_old:
  assumes "keys_sorted ident ordered as"
    and b: "(look as r = None \<and> b = r) \<or> (\<exists>x \<in> set as. ident (attribute x) = ident (attribute r) \<and> b = merge r x)"
    and P: "\<not> P r" "\<And>x. P (merge r x) = P x"
  shows "P b \<longleftrightarrow> ident (attribute r) \<in> ident ` attribute ` {a \<in> set as. P a}"
  using b
proof
  assume n: "look as r = None \<and> b = r"
  then have "\<forall>a \<in> set as. ident (attribute r) \<noteq> ident (attribute a)" using look_None [of as r] by force
  then show ?thesis using n P(1) by auto
next
  assume "\<exists>x \<in> set as. ident (attribute x) = ident (attribute r) \<and> b = merge r x"
  then obtain x where x: "x \<in> set as" "ident (attribute x) = ident (attribute r)" "b = merge r x" by blast
  have id: "y = x" if "y \<in> set as" "ident (attribute y) = ident (attribute r)" for y
    using sorted_distinct [OF assms(1)] that x(1,2) by (auto simp: distinct_map inj_on_def)
  show ?thesis
  proof
    assume "P b"
    then have "attribute x \<in> attribute ` {a \<in> set as. P a}" using x(1) by (simp add: x(3) P(2))
    then show "ident (attribute r) \<in> ident ` attribute ` {a \<in> set as. P a}"
      unfolding x(2) [symmetric] by (rule imageI)
  next
    assume "ident (attribute r) \<in> ident ` attribute ` {a \<in> set as. P a}"
    then obtain y where "y \<in> set as" "ident (attribute y) = ident (attribute r)" "P y" by auto
    then show "P b" using id by (auto simp: x(3) P(2))
  qed
qed

text \<open>What is declared changes for the attribute of the event only, as the abstract machine says.\<close>

lemma event_declared:
  assumes "attribs_event look add merge env e r as db w = (i, as', db', w')" "keys_sorted ident ordered as"
    and "\<not> declares (app_state (applicant r))"
  shows "ident ` declared_set as' =
    {x. if x = ident (attribute r) then mad_declared (x \<in> ident ` declared_set as) e else x \<in> ident ` declared_set as}"
  using assms(1,2)
proof (rule event_set)
  fix b
  assume b: "set as' = insert (as' ! i) {x \<in> set as. ident (attribute x) \<noteq> ident (attribute r)}"
    "ident (attribute b) = ident (attribute r)" "attrib_event env e b db w = (as' ! i, db', w')"
    "(look as r = None \<and> b = r) \<or> (\<exists>x \<in> set as. ident (attribute x) = ident (attribute r) \<and> b = merge r x)"
  have old: "declares (app_state (applicant b)) \<longleftrightarrow> ident (attribute r) \<in> ident ` declared_set as"
    unfolding declared_set_def
    by (rule event_old [OF assms(2) b(4)]) (simp_all add: assms(3) merge_applicant)
  have new: "declares (app_state (applicant (as' ! i))) = mad_declared (ident (attribute r) \<in> ident ` declared_set as) e"
    "ident (attribute (as' ! i)) = ident (attribute r)"
    using attrib_event_step [OF b(3)] b(2) old by (simp_all add: declares_attrib_applicant)
  show ?thesis
  proof (rule set_eqI)
    fix x
    show "x \<in> ident ` declared_set as' \<longleftrightarrow> x \<in> {x. if x = ident (attribute r)
        then mad_declared (x \<in> ident ` declared_set as) e else x \<in> ident ` declared_set as}"
      unfolding declared_ids_iff mem_Collect_eq b(1)
      using new by (cases "x = ident (attribute r)") (auto simp: declared_ids_iff)
  qed
qed

end

section \<open>Lemmas on removal\<close>

lemma reclaimable_not_declared: "reclaimable a \<Longrightarrow> \<not> declares (app_state (applicant a))"
  by (auto simp: reclaimable_def)

lemma sorted_wrt_subseq: "subseq xs ys \<Longrightarrow> sorted_wrt P ys \<Longrightarrow> sorted_wrt P xs"
proof (induction rule: list_emb.induct)
  case (list_emb_Cons2 x y xs ys)
  then show ?case by (auto dest: list_emb_set)
qed auto

lemma hereditary_sorted_wrt [simp]: "hereditary (sorted_wrt R)"
  unfolding hereditary_def using sorted_wrt_subseq by blast

lemma keys_sorted_sub:
  assumes "keys_sorted f P as" "subseq (map attribute bs) (map attribute as)" "hereditary P"
  shows "keys_sorted f P bs"
proof -
  have "subseq (map f (map attribute bs)) (map f (map attribute as))" using assms(2) by (rule subseq_map)
  then have "subseq (map (\<lambda>a. f (attribute a)) bs) (map (\<lambda>a. f (attribute a)) as)" by (simp add: comp_def)
  then show ?thesis using assms(1,3) unfolding keys_sorted_def hereditary_def by blast
qed

lemma subseq_remove_at: "subseq (remove_at i xs) xs"
proof (induction xs arbitrary: i)
  case (Cons x xs)
  then show ?case by (cases i) (auto intro: list_emb_Cons)
qed (simp add: remove_at_def)

lemma declared_set_filter: "declared_set (filter (\<lambda>a. \<not> reclaimable a) as) = declared_set as"
  using reclaimable_not_declared by (auto simp: declared_set_def)

lemma set_remove_at: "i < length as \<Longrightarrow> x \<in> set as \<Longrightarrow> x \<noteq> as ! i \<Longrightarrow> x \<in> set (remove_at i as)"
  by (metis Un_iff id_take_nth_drop remove_at_def set_ConsD set_append)

lemma declared_set_remove_at:
  assumes "i < length as" "\<not> declares (app_state (applicant (as ! i)))"
  shows "declared_set (remove_at i as) = declared_set as"
proof -
  have "{a \<in> set (remove_at i as). declares (app_state (applicant a))} = {a \<in> set as. declares (app_state (applicant a))}"
    using set_remove_at_subset [of i as] set_remove_at [OF assms(1)] assms(2) by blast
  then show ?thesis by (simp add: declared_set_def)
qed

lemma keys_sorted_remove_at: "keys_sorted f P as \<Longrightarrow> hereditary P \<Longrightarrow> keys_sorted f P (remove_at i as)"
  by (rule keys_sorted_sub, assumption) (simp_all add: map_remove_at subseq_remove_at)


section \<open>Lemmas on frames\<close>

lemma length_mrp_frame_buffer [simp]: "length (mrp_frame_buffer dest src etype version) = MAX_FRAME_SIZE"
  by (simp add: mrp_frame_buffer_def mrp_frame_header_def MAX_FRAME_SIZE_def)

lemma lva_consume_frame [simp]: "timer_frame db (lva_consume db)"
  by (simp add: timer_frame_def lva_consume_def)

section \<open>The invariant of a list under the operations\<close>

text \<open>The invariant of an attribute list while notifications may be pending.\<close>

definition list_core :: "('k \<Rightarrow> 'i) \<Rightarrow> ('i list \<Rightarrow> bool) \<Rightarrow> 'k mrp_attribute list \<Rightarrow> mrp_database \<Rightarrow> bool" where
  "list_core ident ordered as db \<longleftrightarrow>
     keys_sorted ident ordered as \<and> (\<forall>a \<in> set as. sendable a) \<and> lv_ok as db"

lemma app_inv_alt:
  "app_inv ident ordered db \<longleftrightarrow> list_core ident ordered (attrib_list db) (mrp_db db) \<and>
     (\<forall>a \<in> set (attrib_list db). notified a) \<and> \<not> send_empty_LeaveAll_flag db"
  by (auto simp: app_inv_def list_core_def)

text \<open>What every operation keeps: history is only extended, clients and declarations stay.\<close>

definition list_keeps ::
  "'k mrp_attribute list \<Rightarrow> mrp_database \<Rightarrow> world \<Rightarrow> 'k mrp_attribute list \<Rightarrow> mrp_database \<Rightarrow> world \<Rightarrow> bool" where
  "list_keeps as db w as' db' w' \<longleftrightarrow> extends w w' \<and> clients db' = clients db \<and> declared_set as' = declared_set as"

lemma list_keeps_refl [simp]: "list_keeps as db w as db w"
  by (simp add: list_keeps_def)

lemma list_keeps_trans [trans]:
  "list_keeps as db w bs db1 w1 \<Longrightarrow> list_keeps bs db1 w1 cs db2 w2 \<Longrightarrow> list_keeps as db w cs db2 w2"
  by (auto simp: list_keeps_def intro: extends_trans)

lemma list_core_timer: "timer_frame db db' \<Longrightarrow> list_core f P as db' = list_core f P as db"
  by (simp add: list_core_def timer_frame_lv_ok)

lemma list_core_timerI: "list_core f P as db \<Longrightarrow> timer_frame db db' \<Longrightarrow> list_core f P as db'"
  by (simp add: list_core_timer)

lemma list_keeps_timer: "timer_frame db db' \<Longrightarrow> extends w w' \<Longrightarrow> list_keeps as db w as db' w'"
  by (simp add: list_keeps_def timer_frame_def)

lemma list_core_leaveall:
  assumes "attribs_leaveall env e c as db w = (as', db', w')" "e \<in> {MRP_EVENT_TXLA, MRP_EVENT_RLA}"
    and "timers_ok env" "list_core f P as db"
  shows "list_core f P as' db' \<and> list_keeps as db w as' db' w'"
  using attribs_leaveall_step [OF assms(1,2)] assms(3,4) same_declared_set [of as as']
    keys_sorted_cong [OF same_declared_keys, of as as' f P]
  by (auto simp: list_core_def list_keeps_def lv_step_def)

lemma list_core_applicant:
  assumes "list_core f P as db" "e \<in> {MRP_EVENT_TX, MRP_EVENT_PERIODIC}"
  shows "list_core f P (attribs_applicant p2p e as) db \<and> list_keeps as db w (attribs_applicant p2p e as) db w"
proof -
  have sd: "same_declared as (attribs_applicant p2p e as)" using assms(2) by (rule attribs_applicant_same_declared)
  show ?thesis
    using assms(1) attribs_applicant_sendable [of as p2p e] same_declared_set [OF sd]
      keys_sorted_cong [OF same_declared_keys [OF sd], of f P]
      lv_ok_registrar_cong [OF attribs_applicant_registrar [of p2p e as]]
    by (simp add: list_core_def list_keeps_def)
qed

lemma list_core_tx_cleared:
  assumes "tx_cleared as as'" "list_core f P as db"
  shows "list_core f P as' db \<and> list_keeps as db w as' db w"
  using assms tx_cleared_sendable [OF assms(1)] same_declared_set [OF tx_cleared_same_declared [OF assms(1)]]
    keys_sorted_cong [OF tx_cleared_keys [OF assms(1)], of f P]
    lv_ok_registrar_cong [OF tx_cleared_registrars [OF assms(1)]]
  by (simp add: list_core_def list_keeps_def)

lemma list_core_filter:
  assumes "list_core f P as db" "hereditary P"
  shows "list_core f P (filter Q as) db"
  using assms unfolding list_core_def
  by (auto simp: lv_ok_def intro: keys_sorted_sub [of _ _ as] subseq_map subseq_filter_left)

lemma list_core_remove_at:
  assumes "list_core f P as db" "hereditary P"
  shows "list_core f P (remove_at i as) db"
  using assms set_remove_at_subset [of i as] keys_sorted_remove_at [of f P as i]
  by (auto simp: list_core_def lv_ok_def)

lemma list_core_notify:
  assumes "attribs_notify send as w = (as', w')" "\<And>a n w. extends w (send a n w)" "list_core f P as db"
  shows "list_core f P as' db \<and> list_keeps as db w as' db w' \<and> (\<forall>a \<in> set as'. notified a)"
proof -
  have as': "as' = fst (attribs_notify send as w)" and w': "w' = snd (attribs_notify send as w)"
    using assms(1) by simp_all
  have sd: "same_declared as as'" unfolding as' by (rule attribs_notify_same_declared)
  have "extends w w'" unfolding w' by (rule attribs_notify_step) (rule assms(2))
  then show ?thesis
    using assms(3) same_declared_set [OF sd] keys_sorted_cong [OF same_declared_keys [OF sd], of f P]
      attribs_notify_sendable [of send as w] attribs_notify_lv_ok [of send as w]
      attribs_notify_cleared [of _ send as w]
    by (auto simp: list_core_def list_keeps_def notified_def as')
qed

context attrib_store
begin

lemma event_core:
  assumes "attribs_event look add merge env e r as db w = (i, as', db', w')"
    and "list_core ident ordered as db" "timers_ok env" "sendable r" "lv_ok1 r db"
  shows "list_core ident ordered as' db' \<and> extends w w' \<and> clients db' = clients db \<and> i < length as'"
proof -
  have s: "keys_sorted ident ordered as" using assms(2) by (simp add: list_core_def)
  have "i < length as'" by (rule event_set [OF assms(1) s])
  then show ?thesis
    using event_sorted [OF assms(1) s] event_sendable [OF assms(1) s _ assms(4)]
      event_lv [OF assms(1) s assms(3) _ assms(5)] event_frame [OF assms(1)] assms(2)
    by (auto simp: list_core_def lv_step_def)
qed

end

text \<open>An application whose merge leaves the Registrar alone as well keeps track of what its peers register.\<close>

locale registering_store = attrib_store +
  assumes merge_reg_state: "reg_state (registrar (merge r a)) = reg_state (registrar a)"
begin

lemma event_in_set:
  assumes "attribs_event look add merge env e r as db w = (i, as', db', w')" "keys_sorted ident ordered as"
    and "reg_state (registrar r) \<noteq> MRP_IN_STATE" "e \<in> received_events"
  shows "ident ` in_set as' =
    {x. if x = ident (attribute r) then peer_registers (x \<in> ident ` in_set as) e else x \<in> ident ` in_set as}"
  using assms(1,2)
proof (rule event_set)
  fix b
  assume b: "set as' = insert (as' ! i) {x \<in> set as. ident (attribute x) \<noteq> ident (attribute r)}"
    "ident (attribute b) = ident (attribute r)" "attrib_event env e b db w = (as' ! i, db', w')"
    "(look as r = None \<and> b = r) \<or> (\<exists>x \<in> set as. ident (attribute x) = ident (attribute r) \<and> b = merge r x)"
  have old: "reg_state (registrar b) = MRP_IN_STATE \<longleftrightarrow> ident (attribute r) \<in> ident ` in_set as"
    unfolding in_set_def
    by (rule event_old [OF assms(2) b(4)]) (simp_all add: assms(3) merge_reg_state)
  have new: "reg_state (registrar (as' ! i)) = MRP_IN_STATE \<longleftrightarrow>
      peer_registers (ident (attribute r) \<in> ident ` in_set as) e"
    using attrib_event_received [OF b(3) assms(4)] old by simp
  have id: "ident (attribute (as' ! i)) = ident (attribute r)"
    using attrib_event_step [OF b(3)] b(2) by simp
  show ?thesis
  proof (rule set_eqI)
    fix x
    show "x \<in> ident ` in_set as' \<longleftrightarrow> x \<in> {x. if x = ident (attribute r)
        then peer_registers (x \<in> ident ` in_set as) e else x \<in> ident ` in_set as}"
      unfolding in_ids_iff mem_Collect_eq b(1)
      using new id by (cases "x = ident (attribute r)") (auto simp: in_ids_iff)
  qed
qed

end

end
