(* ===== verification/Mrp_Handler.thy ===== *)
theory Mrp_Handler
  imports Mrp_Store
begin

text \<open>
  The parts of the event handlers the applications share. The handlers are copies of one
  function; the cases they have in common are written here over the transmit function and the
  notification function of an application, and proved once under the contract of these two.
\<close>

section \<open>Attributes as the applications create them\<close>

text \<open>An attribute as the \<^verbatim>\<open>alloc\<close> functions hand it out, with value and source address filled in.\<close>

definition attr_new :: "'k mrp_attribute \<Rightarrow> bool" where
  "attr_new r \<longleftrightarrow> \<not> declares (app_state (applicant r)) \<and> \<not> app_tx (applicant r) \<and>
     reg_state (registrar r) = MRP_MT_STATE"

lemma attr_new_sendable: "attr_new r \<Longrightarrow> sendable r"
  by (simp add: attr_new_def sendable_def)

lemma attr_new_lv_ok1: "attr_new r \<Longrightarrow> lv_ok1 r db"
  by (simp add: attr_new_def lv_ok1_def)

text \<open>What an event does to the set of declared values.\<close>

definition declared_spec :: "mrp_event \<Rightarrow> 'k mrp_attribute option \<Rightarrow> 'k set \<Rightarrow> 'k set" where
  "declared_spec e r D =
     (case r of None \<Rightarrow> D
      | Some a \<Rightarrow> (case e of MRP_EVENT_NEW \<Rightarrow> insert (attribute a) D
                  | MRP_EVENT_JOIN \<Rightarrow> insert (attribute a) D
                  | MRP_EVENT_LV \<Rightarrow> D - {attribute a}
                  | _ \<Rightarrow> D))"

lemma declared_spec_attrib:
  "e \<in> attrib_events \<Longrightarrow>
   {x. if x = attribute r then mad_declared (x \<in> D) e else x \<in> D} = declared_spec e (Some r) D"
  by (auto simp: attrib_events_def declared_spec_def)

lemma attr_new_fresh [simp]:
  "attr_new ((fresh_attribute k)\<lparr>attribute := v, registrar := (registrar (fresh_attribute k))\<lparr>reg_macaddr := m\<rparr>\<rparr>)"
  "attr_new ((fresh_attribute k)\<lparr>attribute := v\<rparr>)"
  by (simp_all add: attr_new_def fresh_attribute_def)

lemma mrpdu_event_attrib:
  "mrpdu_event c = Some e \<Longrightarrow> e \<in> attrib_events \<and> e \<notin> {MRP_EVENT_NEW, MRP_EVENT_JOIN, MRP_EVENT_LV}"
  by (auto simp: mrpdu_event_def attrib_events_def split: if_splits)

lemma attrib_registrar_LVTIMER:
  "attrib_registrar env MRP_EVENT_LVTIMER a db w =
     (a\<lparr>registrar := (registrar a)\<lparr>
         reg_state := if reg_state (registrar a) = MRP_LV_STATE then MRP_MT_STATE else reg_state (registrar a),
         reg_notify := if reg_state (registrar a) = MRP_LV_STATE then MRP_NOTIFY_LV else MRP_NOTIFY_NONE\<rparr>\<rparr>, db, w)"
  by (simp add: attrib_registrar_def mrp_registrar_fsm_def)

lemma extends_respond [simp, intro]: "extends w (respond env client len msg w)"
  by (simp add: respond_def mrpd_send_ctl_msg_def)

section \<open>The cases of a handler\<close>

definition app_event_LVATIMER ::
  "(os \<Rightarrow> 'k mrp_app \<Rightarrow> world \<Rightarrow> int \<times> 'k mrp_app \<times> world) \<Rightarrow> os \<Rightarrow> 'k mrp_app \<Rightarrow> world \<Rightarrow>
     'k mrp_app \<times> world" where
  "app_event_LVATIMER txpdu env db w =
     (let (_, d1, w1) = mrp_lvatimer_stop env (mrp_db db) w;
          (_, d2, w2) = mrp_jointimer_stop env d1 w1;
          (as, d3, w3) = attribs_leaveall env MRP_EVENT_TXLA (\<lambda>_. True) (attrib_list db) d2 w2;
          (_, d4, w4) = mrp_lvatimer_fsm env d3 MRP_EVENT_LVATIMER w3;
          (_, d5, w5) = mrp_lvatimer_fsm env d4 MRP_EVENT_TX w4;
          (_, db6, w6) = txpdu env (db\<lparr>mrp_db := d5, attrib_list := as, send_empty_LeaveAll_flag := True\<rparr>) w5
      in (db6\<lparr>send_empty_LeaveAll_flag := False\<rparr>, w6))"

definition app_event_TX ::
  "(os \<Rightarrow> 'k mrp_app \<Rightarrow> world \<Rightarrow> int \<times> 'k mrp_app \<times> world) \<Rightarrow> os \<Rightarrow> 'k mrp_app \<Rightarrow> world \<Rightarrow>
     'k mrp_app \<times> world" where
  "app_event_TX txpdu env db w =
     (let (_, d1, w1) = mrp_jointimer_stop env (mrp_db db) w;
          as = attribs_applicant (p2pmac w1) MRP_EVENT_TX (attrib_list db);
          (_, db2, w2) = txpdu env (db\<lparr>mrp_db := d1, attrib_list := as\<rparr>) w1
      in if tx_count as \<noteq> 0
         then let (_, d3, w3) = mrp_jointimer_start env (mrp_db db2) w2 in (db2\<lparr>mrp_db := d3\<rparr>, w3)
         else (db2, w2))"

definition app_event_PERIODIC :: "os \<Rightarrow> 'k mrp_app \<Rightarrow> world \<Rightarrow> 'k mrp_app \<times> world" where
  "app_event_PERIODIC env db w =
     (let (_, d1, w1) = (if attrib_list db \<noteq> [] then mrp_jointimer_start env (mrp_db db) w
                         else (0, mrp_db db, w))
      in (db\<lparr>mrp_db := d1,
             attrib_list := attribs_applicant (p2pmac w1) MRP_EVENT_PERIODIC (attrib_list db)\<rparr>, w1))"

definition app_event_RLA :: "('k \<Rightarrow> bool) \<Rightarrow> os \<Rightarrow> 'k mrp_app \<Rightarrow> world \<Rightarrow> 'k mrp_app \<times> world" where
  "app_event_RLA concerned env db w =
     (let (as, d2, w2) = attribs_leaveall env MRP_EVENT_RLA concerned (attrib_list db) (mrp_db db) w;
          (_, d3, w3) = mrp_lvatimer_fsm env d2 MRP_EVENT_RLA w2
      in (db\<lparr>mrp_db := d3, attrib_list := as\<rparr>, w3))"

definition app_notify ::
  "(os \<Rightarrow> sockaddr_in list \<Rightarrow> 'k mrp_attribute \<Rightarrow> mrp_notify \<Rightarrow> world \<Rightarrow> int \<times> world) \<Rightarrow>
     os \<Rightarrow> 'k mrp_app \<Rightarrow> world \<Rightarrow> 'k mrp_app \<times> world" where
  "app_notify send env db w =
     (let (as, w') = attribs_notify (\<lambda>a n w. snd (send env (clients (mrp_db db)) a n w)) (attrib_list db) w
      in (db\<lparr>attrib_list := as\<rparr>, w'))"

text \<open>
  What a case does to the database \<open>db\<close>: the list invariant holds after it, clients and
  declarations are kept, and if \<open>safe\<close> holds there is no access outside a buffer.
\<close>

definition case_ok ::
  "('k \<Rightarrow> 'i) \<Rightarrow> ('i list \<Rightarrow> bool) \<Rightarrow> bool \<Rightarrow> 'k mrp_app \<Rightarrow> world \<Rightarrow> 'k mrp_app \<times> world \<Rightarrow> bool" where
  "case_ok ident ordered safe db w res \<longleftrightarrow>
     (case res of (db', w') \<Rightarrow>
        list_core ident ordered (attrib_list db') (mrp_db db') \<and> \<not> send_empty_LeaveAll_flag db' \<and>
        clients (mrp_db db') = clients (mrp_db db) \<and>
        declared_set (attrib_list db') = declared_set (attrib_list db) \<and> (safe \<longrightarrow> extends w w'))"

lemma case_okI:
  assumes "list_core ident ordered (attrib_list db') (mrp_db db')" "\<not> send_empty_LeaveAll_flag db'"
    and "list_keeps (attrib_list db) (mrp_db db) w (attrib_list db') (mrp_db db') w'"
  shows "case_ok ident ordered safe db w (db', w')"
  using assms by (simp add: case_ok_def list_keeps_def)

lemma case_ok_refl: "app_inv ident ordered db \<Longrightarrow> case_ok ident ordered safe db w (db, w)"
  by (simp add: case_ok_def app_inv_alt)

lemma app_event_RLA_ok:
  assumes "timers_ok env" "list_core f P (attrib_list db) (mrp_db db)" "\<not> send_empty_LeaveAll_flag db"
  shows "case_ok f P safe db w (app_event_RLA concerned env db w)"
proof -
  obtain as d2 w2 where l: "attribs_leaveall env MRP_EVENT_RLA concerned (attrib_list db) (mrp_db db) w = (as, d2, w2)"
    by (metis prod_cases3)
  obtain r3 d3 w3 where r: "mrp_lvatimer_fsm env d2 MRP_EVENT_RLA w2 = (r3, d3, w3)" by (metis prod_cases3)
  note F = mrp_lvatimer_fsm_frame [OF r]
  have L: "list_core f P as d2 \<and> list_keeps (attrib_list db) (mrp_db db) w as d2 w2"
    using list_core_leaveall [OF l _ assms(1,2)] by blast
  have "list_keeps (attrib_list db) (mrp_db db) w as d3 w3"
    using list_keeps_timer F L list_keeps_trans by meson
  moreover have "list_core f P as d3" using L F by (blast intro: list_core_timerI)
  ultimately have "case_ok f P safe db w (db\<lparr>mrp_db := d3, attrib_list := as\<rparr>, w3)"
    using assms(3) by (intro case_okI) simp_all
  then show ?thesis using l r by (simp add: app_event_RLA_def)
qed

lemma app_event_PERIODIC_ok:
  assumes "app_inv f P db"
  shows "case_ok f P safe db w (app_event_PERIODIC env db w)"
proof -
  obtain r1 d1 w1 where j: "(if attrib_list db \<noteq> [] then mrp_jointimer_start env (mrp_db db) w
      else (0, mrp_db db, w)) = (r1, d1, w1)" by (metis prod_cases3)
  let ?as = "attribs_applicant (p2pmac w1) MRP_EVENT_PERIODIC (attrib_list db)"
  have J: "timer_frame (mrp_db db) d1 \<and> extends w w1"
    using j mrp_jointimer_start_frame by (auto split: if_splits)
  then have "list_core f P (attrib_list db) d1" using assms by (auto simp: app_inv_alt intro: list_core_timerI)
  then have A: "list_core f P ?as d1 \<and> list_keeps (attrib_list db) d1 w1 ?as d1 w1"
    by (rule list_core_applicant) simp
  then have "list_keeps (attrib_list db) (mrp_db db) w ?as d1 w1"
    using J by (meson list_keeps_timer list_keeps_trans)
  with A have "case_ok f P safe db w (db\<lparr>mrp_db := d1, attrib_list := ?as\<rparr>, w1)"
    using assms by (intro case_okI) (simp_all add: app_inv_alt)
  then show ?thesis using j by (simp add: app_event_PERIODIC_def)
qed

text \<open>A transmission opportunity and a LeaveAll make every Applicant ask for a message.\<close>

lemma attrib_applicant_tx:
  "e \<in> {MRP_EVENT_TX, MRP_EVENT_TXLA} \<Longrightarrow> app_tx (applicant (attrib_applicant p2p e a))"
  by (cases "app_state (applicant a)") (auto simp: attrib_applicant_def mrp_applicant_fsm_def)

lemma attribs_applicant_tx: "\<forall>a \<in> set (attribs_applicant p2p MRP_EVENT_TX as). app_tx (applicant a)"
  by (simp add: attribs_applicant_def attrib_applicant_tx)

lemma attribs_leaveall_tx:
  "attribs_leaveall env MRP_EVENT_TXLA (\<lambda>_. True) as db w = (as', db', w') \<Longrightarrow> \<forall>a \<in> set as'. app_tx (applicant a)"
proof (induction as arbitrary: db w as' db' w')
  case (Cons a as)
  let ?a = "attrib_applicant (p2pmac w) MRP_EVENT_TXLA a"
  obtain a1 db1 w1 where r: "attrib_registrar env MRP_EVENT_TXLA ?a db w = (a1, db1, w1)" by (metis prod_cases3)
  obtain bs db2 w2 where l: "attribs_leaveall env MRP_EVENT_TXLA (\<lambda>_. True) as db1 w1 = (bs, db2, w2)"
    by (metis prod_cases3)
  have "app_tx (applicant a1)" using attrib_registrar_step [OF r] attrib_applicant_tx [of MRP_EVENT_TXLA "p2pmac w" a] by simp
  then show ?case using Cons.prems r l Cons.IH [OF l] by auto
qed simp

section \<open>The contract of transmission and notification\<close>

text \<open>
  \<open>room\<close> says of the attributes of a database, and of whether empty LeaveAll messages are to be
  sent, that they fit the frame buffer: transmission is then without an access outside it.
  When a handler transmits, every Applicant has just been asked what it wants to send.
\<close>

locale transmitter =
  fixes ident :: "'k \<Rightarrow> 'i" and ordered :: "'i list \<Rightarrow> bool"
    and txpdu :: "os \<Rightarrow> int \<Rightarrow> 'k mrp_app \<Rightarrow> world \<Rightarrow> int \<times> 'k mrp_app \<times> world"
    and send :: "os \<Rightarrow> sockaddr_in list \<Rightarrow> 'k mrp_attribute \<Rightarrow> mrp_notify \<Rightarrow> world \<Rightarrow> int \<times> world"
    and room :: "bool \<Rightarrow> 'k list \<Rightarrow> bool"
  assumes txpdu_frame: "txpdu env sock db w = (rc, db', w') \<Longrightarrow>
          \<forall>a \<in> set (attrib_list db). app_tx (applicant a) \<Longrightarrow>
          tx_cleared (attrib_list db) (attrib_list db') \<and> timer_frame (mrp_db db) (mrp_db db') \<and>
          send_empty_LeaveAll_flag db' = send_empty_LeaveAll_flag db"
    and txpdu_safe: "txpdu env sock db w = (rc, db', w') \<Longrightarrow>
          \<forall>a \<in> set (attrib_list db). app_tx (applicant a) \<and> sendable a \<Longrightarrow>
          room (send_empty_LeaveAll_flag db) (map attribute (attrib_list db)) \<Longrightarrow> extends w w'"
    and send_extends: "extends w (snd (send env cs a n w))"
begin

lemma txpdu_core:
  assumes "txpdu env sock db w = (rc, db', w')" "list_core ident ordered (attrib_list db) (mrp_db db)"
    and "\<forall>a \<in> set (attrib_list db). app_tx (applicant a)"
  shows "list_core ident ordered (attrib_list db') (mrp_db db') \<and> clients (mrp_db db') = clients (mrp_db db) \<and>
    declared_set (attrib_list db') = declared_set (attrib_list db) \<and>
    send_empty_LeaveAll_flag db' = send_empty_LeaveAll_flag db"
proof -
  note T = txpdu_frame [OF assms(1,3)]
  have c: "list_core ident ordered (attrib_list db) (mrp_db db')" using T assms(2) by (blast intro: list_core_timerI)
  show ?thesis
    using T list_core_tx_cleared [OF _ c, of "attrib_list db'" w'] by (simp add: list_keeps_def timer_frame_def)
qed

lemma event_TX_ok:
  assumes "app_inv ident ordered db"
  shows "case_ok ident ordered (room False (map attribute (attrib_list db))) db w
    (app_event_TX (\<lambda>env. txpdu env sock) env db w)"
proof -
  obtain r1 d1 w1 where j: "mrp_jointimer_stop env (mrp_db db) w = (r1, d1, w1)" by (metis prod_cases3)
  let ?as = "attribs_applicant (p2pmac w1) MRP_EVENT_TX (attrib_list db)"
  let ?db = "db\<lparr>mrp_db := d1, attrib_list := ?as\<rparr>"
  obtain r2 db2 w2 where t: "txpdu env sock ?db w1 = (r2, db2, w2)" by (metis prod_cases3)
  obtain r3 d3 w3 where s: "mrp_jointimer_start env (mrp_db db2) w2 = (r3, d3, w3)" by (metis prod_cases3)
  note J = mrp_jointimer_stop_frame [OF j] and S = mrp_jointimer_start_frame [OF s]
  have "list_core ident ordered (attrib_list db) d1" using J assms by (auto simp: app_inv_alt intro: list_core_timerI)
  then have A: "list_core ident ordered ?as d1 \<and> list_keeps (attrib_list db) d1 w1 ?as d1 w1"
    by (rule list_core_applicant) simp
  have tx: "\<forall>a \<in> set (attrib_list ?db). app_tx (applicant a)" by (simp add: attribs_applicant_tx)
  have T: "list_core ident ordered (attrib_list db2) (mrp_db db2) \<and> clients (mrp_db db2) = clients d1 \<and>
      declared_set (attrib_list db2) = declared_set (attrib_list db) \<and> \<not> send_empty_LeaveAll_flag db2"
    using txpdu_core [OF t _ tx] A assms by (simp add: app_inv_alt list_keeps_def)
  have "\<forall>a \<in> set (attrib_list ?db). app_tx (applicant a) \<and> sendable a" using A tx by (simp add: list_core_def)
  from txpdu_safe [OF t this] have X: "room False (map attribute (attrib_list db)) \<longrightarrow> extends w w2"
    using J assms extends_trans [of w w1 w2] by (simp add: app_inv_alt)
  have "list_core ident ordered (attrib_list db2) d3" using T S by (blast intro: list_core_timerI)
  moreover have "room False (map attribute (attrib_list db)) \<longrightarrow> extends w w3"
    using X S extends_trans [of w w2 w3] by blast
  ultimately show ?thesis
    using j t s T X S J by (simp add: app_event_TX_def Let_def case_ok_def timer_frame_def)
qed

lemma event_LVATIMER_ok:
  assumes "timers_ok env" "app_inv ident ordered db"
  shows "case_ok ident ordered (room True (map attribute (attrib_list db))) db w
    (app_event_LVATIMER (\<lambda>env. txpdu env sock) env db w)"
proof -
  obtain r1 d1 w1 where a: "mrp_lvatimer_stop env (mrp_db db) w = (r1, d1, w1)" by (metis prod_cases3)
  obtain r2 d2 w2 where b: "mrp_jointimer_stop env d1 w1 = (r2, d2, w2)" by (metis prod_cases3)
  obtain as d3 w3 where l: "attribs_leaveall env MRP_EVENT_TXLA (\<lambda>_. True) (attrib_list db) d2 w2 = (as, d3, w3)"
    by (metis prod_cases3)
  obtain r4 d4 w4 where f: "mrp_lvatimer_fsm env d3 MRP_EVENT_LVATIMER w3 = (r4, d4, w4)" by (metis prod_cases3)
  obtain r5 d5 w5 where g: "mrp_lvatimer_fsm env d4 MRP_EVENT_TX w4 = (r5, d5, w5)" by (metis prod_cases3)
  let ?db = "db\<lparr>mrp_db := d5, attrib_list := as, send_empty_LeaveAll_flag := True\<rparr>"
  obtain r6 db6 w6 where t: "txpdu env sock ?db w5 = (r6, db6, w6)" by (metis prod_cases3)
  have F1: "timer_frame (mrp_db db) d2 \<and> extends w w2"
    using mrp_lvatimer_stop_frame [OF a] mrp_jointimer_stop_frame [OF b] by (meson timer_frame_trans extends_trans)
  have F2: "timer_frame d3 d5 \<and> extends w3 w5"
    using mrp_lvatimer_fsm_frame [OF f] mrp_lvatimer_fsm_frame [OF g] by (meson timer_frame_trans extends_trans)
  have "list_core ident ordered (attrib_list db) d2"
    using F1 assms(2) by (auto simp: app_inv_alt intro: list_core_timerI)
  then have L: "list_core ident ordered as d3 \<and> list_keeps (attrib_list db) d2 w2 as d3 w3"
    using list_core_leaveall [OF l _ assms(1)] by blast
  have K: "list_keeps (attrib_list db) (mrp_db db) w as d5 w5"
    using F1 F2 L by (meson list_keeps_timer list_keeps_trans)
  have c: "list_core ident ordered (attrib_list ?db) (mrp_db ?db)" using L F2 by (auto intro: list_core_timerI)
  have tx: "\<forall>a \<in> set (attrib_list ?db). app_tx (applicant a)" using attribs_leaveall_tx [OF l] by simp
  note T = txpdu_core [OF t c tx]
  have keys: "map attribute as = map attribute (attrib_list db)"
    using keys_attribs_leaveall [of env _ _ "attrib_list db"] l by (metis fst_conv)
  have "\<forall>a \<in> set (attrib_list ?db). app_tx (applicant a) \<and> sendable a" using c tx by (simp add: list_core_def)
  from txpdu_safe [OF t this] have "room True (map attribute (attrib_list db)) \<longrightarrow> extends w5 w6" using keys by simp
  then have "case_ok ident ordered (room True (map attribute (attrib_list db))) db w
      (db6\<lparr>send_empty_LeaveAll_flag := False\<rparr>, w6)"
    using T K extends_trans by (auto simp: case_ok_def list_keeps_def)
  then show ?thesis
    using a b l f g t by (simp add: app_event_LVATIMER_def)
qed

lemma notify_step:
  assumes "app_notify send env db w = (db', w')" "list_core ident ordered (attrib_list db) (mrp_db db)"
    and "\<not> send_empty_LeaveAll_flag db"
  shows "app_inv ident ordered db' \<and> mrp_db db' = mrp_db db \<and>
    list_keeps (attrib_list db) (mrp_db db) w (attrib_list db') (mrp_db db') w'"
proof -
  let ?send = "\<lambda>a n w. snd (send env (clients (mrp_db db)) a n w)"
  obtain as w1 where n: "attribs_notify ?send (attrib_list db) w = (as, w1)" by (metis prod.exhaust)
  have "db' = db\<lparr>attrib_list := as\<rparr>" "w' = w1" using assms(1) n by (auto simp: app_notify_def)
  then show ?thesis
    using list_core_notify [OF n send_extends assms(2)] assms(3) by (auto simp: app_inv_alt)
qed

text \<open>A case followed by the notifications.\<close>

lemma case_notify:
  assumes "case_ok ident ordered safe db w (db2, w2)" "app_notify send env db2 w2 = (db', w')"
  shows "app_inv ident ordered db' \<and> clients (mrp_db db') = clients (mrp_db db) \<and>
    declared_set (attrib_list db') = declared_set (attrib_list db) \<and> (safe \<longrightarrow> extends w w')"
  using assms(1) notify_step [OF assms(2)] extends_trans [of w w2 w'] by (auto simp: case_ok_def list_keeps_def)

end


section \<open>All inputs of an application\<close>

datatype mrp_input =
    In_join_timer | In_leave_timer | In_leaveall_timer | In_periodic_timer
  | In_frame bytes
  | In_cmd string sockaddr_in
  | In_reclaim
  | In_bye sockaddr_in

text \<open>
  An application that keeps its invariant on every input, and whose declarations follow a
  specification, does so along every sequence of inputs.
\<close>

locale input_system =
  fixes exec :: "os \<Rightarrow> int \<Rightarrow> 's option \<times> world \<Rightarrow> mrp_input \<Rightarrow> 's option \<times> world"
    and inv :: "'s \<Rightarrow> bool"
    and declared :: "'s \<Rightarrow> 'd"
    and spec :: "'d \<Rightarrow> mrp_input \<Rightarrow> 'd"
  assumes exec_step: "timers_ok env \<Longrightarrow> inv db \<Longrightarrow>
      \<exists>db' w'. exec env sock (Some db, w) i = (Some db', w') \<and> inv db' \<and>
        (malloc_ok env \<longrightarrow> declared db' = spec (declared db) i)"
begin

lemma run_step:
  assumes "timers_ok env" "inv db"
  shows "\<exists>db' w'. foldl (exec env sock) (Some db, w) ins = (Some db', w') \<and> inv db' \<and>
    (malloc_ok env \<longrightarrow> declared db' = foldl spec (declared db) ins)"
  using assms(2)
proof (induction ins arbitrary: db w)
  case (Cons i ins)
  obtain db1 w1 where 1: "exec env sock (Some db, w) i = (Some db1, w1)" "inv db1"
      "malloc_ok env \<longrightarrow> declared db1 = spec (declared db) i"
    using exec_step [OF assms(1) Cons.prems] by blast
  show ?case using Cons.IH [OF 1(2), of w1] 1 by auto
qed simp

end

lemma take_3_Cons: "take 3 xs = [a, b, c] \<Longrightarrow> 3 \<le> length xs \<and> xs ! 0 = a"
  by (metis One_nat_def Suc_leI length_Cons length_take list.size(3) min.cobounded1 nth_Cons_0 nth_take
      numeral_3_eq_3 zero_less_numeral)

lemma declared_set_reclaim: "declared_set (filter (\<lambda>a. \<not> reclaimable a) as) = declared_set as"
  by (auto simp: declared_set_def reclaimable_def)

end
