(* ===== verification/Mvrp.thy ===== *)
theory Mvrp
  imports Mrp_Handler Parse
begin

text \<open>
  The Multiple VLAN Registration Protocol (\<^verbatim>\<open>daemons/mrpd/mvrp.c\<close>): its attribute list
  ordered by VID, the event handler, transmission and reception of frames, notifications and
  commands of local clients, and reclamation of idle attributes. The database \<^verbatim>\<open>MVRP_db\<close> is a
  parameter and result of each function; where a function tests it for null it is an option.
\<close>

type_synonym mvrp_attribute = "u16 mrp_attribute"
type_synonym mvrp_database = "u16 mrp_app"

definition MVRP_ETYPE :: u16 where "MVRP_ETYPE = 0x88F5"
definition MVRP_CUSTOMER_BRIDGE_ADDR :: bytes where
  "MVRP_CUSTOMER_BRIDGE_ADDR = [0x01, 0x80, 0xC2, 0x00, 0x00, 0x21]"
definition MVRP_PROT_VER :: byte where "MVRP_PROT_VER = 0"
definition MVRP_VID_TYPE :: byte where "MVRP_VID_TYPE = 1"

section \<open>The attribute list\<close>

definition mvrp_lookup :: "mvrp_attribute list \<Rightarrow> mvrp_attribute \<Rightarrow> nat option" where
  "mvrp_lookup as rattrib = find_pos (\<lambda>a. attribute a = attribute rattrib) as"

text \<open>Insertion before the first attribute that is not smaller; the position is returned.\<close>

fun mvrp_add :: "mvrp_attribute list \<Rightarrow> mvrp_attribute \<Rightarrow> nat \<times> mvrp_attribute list" where
  "mvrp_add [] rattrib = (0, [rattrib])"
| "mvrp_add (a # as) rattrib =
     (if attribute a < attribute rattrib
      then let (i, as') = mvrp_add as rattrib in (Suc i, a # as')
      else (0, rattrib # a # as))"

text \<open>The source address of the last registration is kept for diagnostics.\<close>

definition mvrp_merge :: "mvrp_attribute \<Rightarrow> mvrp_attribute \<Rightarrow> mvrp_attribute" where
  "mvrp_merge rattrib attrib =
     attrib\<lparr>registrar := (registrar attrib)\<lparr>reg_macaddr := reg_macaddr (registrar rattrib)\<rparr>\<rparr>"

text \<open>The node \<^verbatim>\<open>malloc\<close> returns, initialised, or \<open>None\<close> for a null pointer.\<close>

definition mvrp_alloc :: "os \<Rightarrow> world \<Rightarrow> mvrp_attribute option \<times> world" where
  "mvrp_alloc env w =
     (let (ok, w') = malloc env 64 w in (if ok then Some (fresh_attribute 0) else None, w'))"

section \<open>Notifications\<close>

definition mvrp_notify_text :: "mvrp_attribute \<Rightarrow> string \<Rightarrow> string" where
  "mvrp_notify_text attrib cmd =
     (let variant = snprintf BUFSIZE (fmt_04x (attribute attrib));
          regsrc = snprintf BUFSIZE (''R='' @ fmt_hex_bytes (reg_macaddr (registrar attrib)));
          mrp_state = mrp_decode_state (registrar attrib) (applicant attrib) 8
      in snprintf (MAX_MRPD_CMDSZ - 1) (cmd @ '' '' @ variant @ '' '' @ regsrc @ '' '' @ mrp_state @ newline))"

definition mvrp_send_notifications ::
  "os \<Rightarrow> sockaddr_in list \<Rightarrow> mvrp_attribute \<Rightarrow> mrp_notify \<Rightarrow> world \<Rightarrow> int \<times> world" where
  "mvrp_send_notifications env cs attrib notify w =
     (case alloc_notify_bufs env w of
        (None, w1) \<Rightarrow> (-1, w1)
      | (Some ok, w1) \<Rightarrow>
          (0, if \<not> ok then w1
              else case notify of
                     MRP_NOTIFY_NEW \<Rightarrow> send_to_clients env cs (mvrp_notify_text attrib ''VNE'') w1
                   | MRP_NOTIFY_JOIN \<Rightarrow> send_to_clients env cs (mvrp_notify_text attrib ''VJO'') w1
                   | MRP_NOTIFY_LV \<Rightarrow> send_to_clients env cs (mvrp_notify_text attrib ''VLE'') w1
                   | MRP_NOTIFY_NONE \<Rightarrow> w1))"

section \<open>Transmission\<close>

definition mvrp_emit_params :: "u16 emit_params" where
  "mvrp_emit_params =
     \<lparr>em_match = (\<lambda>_. True), em_type = MVRP_VID_TYPE, em_length = 2, em_data = 2,
      em_vector_size = 6, em_first = (\<lambda>vid. [hi8 vid, lo8 vid]), em_vectidx = 2,
      em_succ = (\<lambda>vid. vid + 1), em_same = (=), em_slack = 2, em_pad = (\<lambda>_. (0, 0)),
      em_join_first = False, em_keep_lva = False\<rparr>"

definition mvrp_emit_vidvectors ::
  "bytes \<Rightarrow> nat \<Rightarrow> nat \<Rightarrow> bool \<Rightarrow> bool \<Rightarrow> mvrp_attribute list \<Rightarrow> (bytes \<times> nat) flow \<times> mvrp_attribute list" where
  "mvrp_emit_vidvectors msgbuf wrptr eof lv_all send_empty as =
     emit_message mvrp_emit_params msgbuf wrptr eof lv_all send_empty as"

definition mvrp_txpdu ::
  "os \<Rightarrow> int \<Rightarrow> mvrp_database \<Rightarrow> world \<Rightarrow> int \<times> mvrp_database \<times> world" where
  "mvrp_txpdu env sock db w =
     (let (ok, w1) = malloc env MAX_FRAME_SIZE w
      in if \<not> ok then (-1, db, w1)
         else
           let msgbuf = mrp_frame_buffer MVRP_CUSTOMER_BRIDGE_ADDR (station_addr w) MVRP_ETYPE MVRP_PROT_VER;
               db1 = db\<lparr>mrp_db := lva_consume (mrp_db db)\<rparr>
           in case mvrp_emit_vidvectors msgbuf 15 MAX_FRAME_SIZE (lva_tx (lva (mrp_db db)))
                     (send_empty_LeaveAll_flag db) (attrib_list db) of
                (Goto, as) \<Rightarrow> (-1, db1\<lparr>attrib_list := as\<rparr>, w1)
              | (Fault, as) \<Rightarrow> (-1, db1\<lparr>attrib_list := as\<rparr>, crash w1)
              | (Next (buf, bytes), as) \<Rightarrow>
                  let db2 = db1\<lparr>attrib_list := as\<rparr>
                  in if bytes = 0 then (-1, db2, w1)
                     else if \<not> 15 + bytes + 2 < MAX_FRAME_SIZE then (-1, db2, w1)
                     else case wr_bytes buf (15 + bytes) [0, 0] of
                            None \<Rightarrow> (-1, db2, crash w1)
                          | Some frame \<Rightarrow>
                              let (n, w2) = mrpd_send env sock (take (15 + bytes + 2) frame) w1
                              in (if n \<le> 0 then -1 else 0, db2, w2))"

section \<open>The event handler\<close>

text \<open>Reclamation: whether the node is freed, after telling the clients.\<close>

definition mvrp_conditional_reclaim ::
  "os \<Rightarrow> sockaddr_in list \<Rightarrow> mvrp_attribute \<Rightarrow> world \<Rightarrow> bool \<times> world" where
  "mvrp_conditional_reclaim env cs vattrib w =
     (if reclaimable vattrib
      then (True, snd (mvrp_send_notifications env cs vattrib MRP_NOTIFY_LV w))
      else (False, w))"

fun mvrp_reclaim_list :: "os \<Rightarrow> sockaddr_in list \<Rightarrow> mvrp_attribute list \<Rightarrow> world \<Rightarrow> mvrp_attribute list \<times> world" where
  "mvrp_reclaim_list env cs [] w = ([], w)"
| "mvrp_reclaim_list env cs (a # as) w =
     (let (freed, w1) = mvrp_conditional_reclaim env cs a w;
          (as', w2) = mvrp_reclaim_list env cs as w1
      in (if freed then as' else a # as', w2))"

definition mvrp_reclaim :: "os \<Rightarrow> mvrp_database option \<Rightarrow> world \<Rightarrow> int \<times> mvrp_database option \<times> world" where
  "mvrp_reclaim env d w =
     (case d of
        None \<Rightarrow> (0, None, w)
      | Some db \<Rightarrow>
          let (as, w') = mvrp_reclaim_list env (clients (mrp_db db)) (attrib_list db) w
          in (0, Some (db\<lparr>attrib_list := as\<rparr>), w'))"

text \<open>The leave timer: each registrar in turn, its attribute reclaimed at once.\<close>

fun mvrp_lvtimer_loop ::
  "os \<Rightarrow> mvrp_attribute list \<Rightarrow> mrp_database \<Rightarrow> world \<Rightarrow> mvrp_attribute list \<times> mrp_database \<times> world" where
  "mvrp_lvtimer_loop env [] db w = ([], db, w)"
| "mvrp_lvtimer_loop env (a # as) db w =
     (let (a1, db1, w1) = attrib_registrar env MRP_EVENT_LVTIMER a db w;
          (freed, w2) = mvrp_conditional_reclaim env (clients db1) a1 w1;
          (as', db2, w3) = mvrp_lvtimer_loop env as db1 w2
      in (if freed then as' else a1 # as', db2, w3))"

text \<open>The switch of \<^verbatim>\<open>mvrp_event\<close>, one case each.\<close>

definition mvrp_event_LVATIMER :: "os \<Rightarrow> int \<Rightarrow> mvrp_database \<Rightarrow> world \<Rightarrow> mvrp_database \<times> world" where
  "mvrp_event_LVATIMER env sock db w =
     (let (_, d1, w1) = mrp_lvatimer_stop env (mrp_db db) w;
          (_, d2, w2) = mrp_jointimer_stop env d1 w1;
          (as, d3, w3) = attribs_leaveall env MRP_EVENT_TXLA (\<lambda>_. True) (attrib_list db) d2 w2;
          (_, d4, w4) = mrp_lvatimer_fsm env d3 MRP_EVENT_LVATIMER w3;
          (_, d5, w5) = mrp_lvatimer_fsm env d4 MRP_EVENT_TX w4;
          (_, db6, w6) = mvrp_txpdu env sock
             (db\<lparr>mrp_db := d5, attrib_list := as, send_empty_LeaveAll_flag := True\<rparr>) w5
      in (db6\<lparr>send_empty_LeaveAll_flag := False\<rparr>, w6))"

definition mvrp_event_RLA :: "os \<Rightarrow> mvrp_database \<Rightarrow> world \<Rightarrow> mvrp_database \<times> world" where
  "mvrp_event_RLA env db w =
     (let (_, d1, w1) = mrp_jointimer_start env (mrp_db db) w;
          (as, d2, w2) = attribs_leaveall env MRP_EVENT_RLA (\<lambda>_. True) (attrib_list db) d1 w1;
          (_, d3, w3) = mrp_lvatimer_fsm env d2 MRP_EVENT_RLA w2
      in (db\<lparr>mrp_db := d3, attrib_list := as\<rparr>, w3))"

definition mvrp_event_TX :: "os \<Rightarrow> int \<Rightarrow> mvrp_database \<Rightarrow> world \<Rightarrow> mvrp_database \<times> world" where
  "mvrp_event_TX env sock db w =
     (let (_, d1, w1) = mrp_jointimer_stop env (mrp_db db) w;
          as = attribs_applicant (p2pmac w1) MRP_EVENT_TX (attrib_list db);
          (_, db2, w2) = mvrp_txpdu env sock (db\<lparr>mrp_db := d1, attrib_list := as\<rparr>) w1
      in if tx_count as \<noteq> 0
         then let (_, d3, w3) = mrp_jointimer_start env (mrp_db db2) w2 in (db2\<lparr>mrp_db := d3\<rparr>, w3)
         else (db2, w2))"

definition mvrp_event_LVTIMER :: "os \<Rightarrow> mvrp_database \<Rightarrow> world \<Rightarrow> mvrp_database \<times> world" where
  "mvrp_event_LVTIMER env db w =
     (let (_, d1, w1) = mrp_lvtimer_stop env (mrp_db db) w;
          (as, d2, w2) = mvrp_lvtimer_loop env (attrib_list db) d1 w1
      in (db\<lparr>mrp_db := d2, attrib_list := as\<rparr>, w2))"

definition mvrp_event_PERIODIC :: "os \<Rightarrow> mvrp_database \<Rightarrow> world \<Rightarrow> mvrp_database \<times> world" where
  "mvrp_event_PERIODIC env db w =
     (let (_, d1, w1) = (if attrib_list db \<noteq> [] then mrp_jointimer_start env (mrp_db db) w
                         else (0, mrp_db db, w))
      in (db\<lparr>mrp_db := d1,
             attrib_list := attribs_applicant (p2pmac w1) MRP_EVENT_PERIODIC (attrib_list db)\<rparr>, w1))"

definition mvrp_event_attrib ::
  "os \<Rightarrow> mrp_event \<Rightarrow> mvrp_attribute \<Rightarrow> mvrp_database \<Rightarrow> world \<Rightarrow> mvrp_database \<times> world" where
  "mvrp_event_attrib env event rattrib db w =
     (let (i, as, d1, w1) =
            attribs_event mvrp_lookup mvrp_add mvrp_merge env event rattrib (attrib_list db) (mrp_db db) w;
          (freed, w2) = mvrp_conditional_reclaim env (clients d1) (as ! i) w1
      in (db\<lparr>mrp_db := d1, attrib_list := if freed then remove_at i as else as\<rparr>, w2))"

text \<open>The loop after the switch: pending notifications are sent to the clients.\<close>

definition mvrp_notify :: "os \<Rightarrow> mvrp_database \<Rightarrow> world \<Rightarrow> mvrp_database \<times> world" where
  "mvrp_notify env db w =
     (let (as, w') = attribs_notify (\<lambda>a n w. snd (mvrp_send_notifications env (clients (mrp_db db)) a n w))
                       (attrib_list db) w
      in (db\<lparr>attrib_list := as\<rparr>, w'))"

definition mvrp_event ::
  "os \<Rightarrow> int \<Rightarrow> mrp_event \<Rightarrow> mvrp_attribute option \<Rightarrow> mvrp_database \<Rightarrow> world \<Rightarrow>
     int \<times> mvrp_database \<times> world" where
  "mvrp_event env sock event rattrib db w =
     (if event \<in> attrib_events
      then let (_, d1, w1) = mrp_jointimer_start env (mrp_db db) w;
               db1 = db\<lparr>mrp_db := d1\<rparr>
           in case rattrib of
                None \<Rightarrow> (-1, db1, w1)
              | Some r \<Rightarrow>
                  let (db2, w2) = mvrp_event_attrib env event r db1 w1;
                      (db3, w3) = mvrp_notify env db2 w2
                  in (0, db3, w3)
      else let (db2, w2) =
                 (case event of
                    MRP_EVENT_LVATIMER \<Rightarrow> mvrp_event_LVATIMER env sock db w
                  | MRP_EVENT_RLA \<Rightarrow> mvrp_event_RLA env db w
                  | MRP_EVENT_TX \<Rightarrow> mvrp_event_TX env sock db w
                  | MRP_EVENT_LVTIMER \<Rightarrow> mvrp_event_LVTIMER env db w
                  | MRP_EVENT_PERIODIC \<Rightarrow> mvrp_event_PERIODIC env db w
                  | _ \<Rightarrow> (db, w));
               (db3, w3) = mvrp_notify env db2 w2
           in (0, db3, w3))"

section \<open>Reception\<close>

text \<open>
  The state while a vector is read: the VID of the next event, the database and the world.
  \<open>src\<close> is the source address of the frame.
\<close>

definition mvrp_recv_evt ::
  "os \<Rightarrow> int \<Rightarrow> bytes \<Rightarrow> nat \<Rightarrow> u16 \<times> mvrp_database \<times> world \<Rightarrow> unit flow \<times> u16 \<times> mvrp_database \<times> world" where
  "mvrp_recv_evt env sock src e s =
     (case s of (vid_firstval, db, w) \<Rightarrow>
        if 0xFFF < vid_firstval then (Next (), vid_firstval, db, w)
        else case mvrp_alloc env w of
               (None, w1) \<Rightarrow> (Goto, vid_firstval, db, w1)
             | (Some a, w1) \<Rightarrow>
                 let a = a\<lparr>attribute := vid_firstval, registrar := (registrar a)\<lparr>reg_macaddr := src\<rparr>\<rparr>
                 in case mrpdu_event e of
                      None \<Rightarrow> (Next (), vid_firstval + 1, db, w1)
                    | Some event \<Rightarrow>
                        let (_, db', w') = mvrp_event env sock event (Some a) db w1
                        in (Next (), vid_firstval + 1, db', w'))"

text \<open>One vector at offset \<open>p\<close> with header \<open>h\<close>.\<close>

definition mvrp_recv_vector ::
  "os \<Rightarrow> int \<Rightarrow> bytes \<Rightarrow> nat \<Rightarrow> bytes \<Rightarrow> nat \<Rightarrow> u16 \<Rightarrow> bool \<Rightarrow> mvrp_database \<Rightarrow> world \<Rightarrow>
     unit flow \<times> bool \<times> mvrp_database \<times> world" where
  "mvrp_recv_vector env sock buf eof src p h saw_vlan_lva db w =
     (let numvalues = unat (MRPDU_VECT_NUMVALUES h);
          rla = (MRPDU_VECT_LVA h \<and> \<not> saw_vlan_lva);
          saw = (saw_vlan_lva \<or> rla);
          (_, db1, w1) = (if rla then mvrp_event env sock MRP_EVENT_RLA None db w else (0, db, w))
      in if numvalues = 0 then (Goto, saw, db1, w1)
         else if eof \<le> p + 2 + numvalues div 3 then (Goto, saw, db1, w1)
         else case rd16 buf (p + 2) of
                None \<Rightarrow> (Fault, saw, db1, w1)
              | Some vid \<Rightarrow>
                  (case recv_vector (mvrp_recv_evt env sock src) buf (p + 4)
                          (Suc (numvectorbytes numvalues)) numvalues (vid, db1, w1) of
                     (r, _, db2, w2) \<Rightarrow> (r, saw, db2, w2)))"

text \<open>The vectors of one message, from offset \<open>p\<close> to the endmark, whose offset is returned.\<close>

function mvrp_recv_vectors ::
  "os \<Rightarrow> int \<Rightarrow> bytes \<Rightarrow> nat \<Rightarrow> bytes \<Rightarrow> nat \<Rightarrow> bool \<Rightarrow> mvrp_database \<Rightarrow> world \<Rightarrow>
     nat flow \<times> bool \<times> mvrp_database \<times> world" where
  "mvrp_recv_vectors env sock buf eof src p saw db w =
     (case rd16 buf p of
        None \<Rightarrow> (Fault, saw, db, w)
      | Some h \<Rightarrow>
          if h = 0 then (Next p, saw, db, w)
          else (case mvrp_recv_vector env sock buf eof src p h saw db w of
                  (Goto, s) \<Rightarrow> (Goto, s)
                | (Fault, s) \<Rightarrow> (Fault, s)
                | (Next _, saw', db', w') \<Rightarrow>
                    mvrp_recv_vectors env sock buf eof src
                      (p + 4 + numvectorbytes (unat (MRPDU_VECT_NUMVALUES h))) saw' db' w'))"
  by pat_completeness auto
termination
  by (relation "measure (\<lambda>(env, sock, buf, eof, src, p, _). length buf - p)") (auto simp: rd16_Some_iff)

declare mvrp_recv_vectors.simps [simp del]

lemma mvrp_recv_vectors_advances:
  "fst (mvrp_recv_vectors env sock buf eof src p saw db w) = Next q \<Longrightarrow> p \<le> q"
proof (induction env sock buf eof src p saw db w rule: mvrp_recv_vectors.induct)
  case (1 env sock buf eof src p saw db w)
  show ?case
  proof (cases "rd16 buf p")
    case None
    then show ?thesis using "1.prems" by (simp add: mvrp_recv_vectors.simps [of env sock buf eof src p])
  next
    case (Some h)
    obtain r saw' db' w' where v: "mvrp_recv_vector env sock buf eof src p h saw db w = (r, saw', db', w')"
      by (metis prod_cases4)
    show ?thesis
      using "1.prems" Some v "1.IH" [OF Some _ v [symmetric]]
      by (cases r) (fastforce simp: mvrp_recv_vectors.simps [of env sock buf eof src p] split: if_splits)+
  qed
qed

lemma mvrp_recv_vectors_advances':
  "(Next q, s) = mvrp_recv_vectors env sock buf eof src p saw db w \<Longrightarrow> p \<le> q"
  by (metis mvrp_recv_vectors_advances fst_conv)

text \<open>The message list, until the end of the frame or two endmarks.\<close>

function mvrp_recv_messages ::
  "os \<Rightarrow> int \<Rightarrow> bytes \<Rightarrow> nat \<Rightarrow> bytes \<Rightarrow> byte \<Rightarrow> nat \<Rightarrow> nat \<Rightarrow> bool \<Rightarrow> mvrp_database \<Rightarrow> world \<Rightarrow>
     unit flow \<times> mvrp_database \<times> world" where
  "mvrp_recv_messages env sock buf eof src version p endmarks saw db w =
     (if \<not> p + 2 < eof then (Next (), db, w)
      else case rd_bytes buf p 2 of
             None \<Rightarrow> (Fault, db, w)
           | Some msg \<Rightarrow>
               let AttributeType = msg ! 0; AttributeLength = msg ! 1
               in if AttributeType = 0 \<and> AttributeLength = 0
                  then if endmarks + 1 < 2
                       then mvrp_recv_messages env sock buf eof src version (p + 2) (endmarks + 1) saw db w
                       else (Next (), db, w)
                  else if AttributeType = MVRP_VID_TYPE
                  then if AttributeLength \<noteq> 2 then (Goto, db, w)
                       else (case mvrp_recv_vectors env sock buf eof src (p + 2) saw db w of
                               (Goto, _, db', w') \<Rightarrow> (Goto, db', w')
                             | (Fault, _, db', w') \<Rightarrow> (Fault, db', w')
                             | (Next q, saw', db', w') \<Rightarrow>
                                 mvrp_recv_messages env sock buf eof src version q 0 saw' db' w')
                  else if version = MVRP_PROT_VER then (Goto, db, w)
                  else case rd16 buf (p + 2) of
                         None \<Rightarrow> (Fault, db, w)
                       | Some h \<Rightarrow>
                           mvrp_recv_messages env sock buf eof src version
                             (p + 4 + unat AttributeLength + (unat (MRPDU_VECT_NUMVALUES h) + 2) div 3) 0 saw db w)"
  by pat_completeness auto
termination
proof (relation "measure (\<lambda>(env, sock, buf, eof, src, version, p, _). eof - p)", goal_cases)
  case 1
  show ?case by simp
next
  case 2
  then show ?case by simp
next
  case 3
  then show ?case by (auto dest!: mvrp_recv_vectors_advances')
next
  case 4
  then show ?case by simp
qed

declare mvrp_recv_messages.simps [simp del]

text \<open>
  A received frame. \<open>frame\<close> is what the kernel delivers; the function reads the zero padded
  buffer \<open>recv_buffer\<close> makes of it.
\<close>

definition mvrp_recv_msg ::
  "os \<Rightarrow> int \<Rightarrow> bytes \<Rightarrow> mvrp_database \<Rightarrow> world \<Rightarrow> int \<times> mvrp_database \<times> world" where
  "mvrp_recv_msg env sock frame db w =
     (let msgbuf = recv_buffer frame; bytes = recv_count frame
      in if bytes < 17 then (-1, db, w)
         else if be16 (msgbuf ! 12) (msgbuf ! 13) \<noteq> MVRP_ETYPE then (-1, db, w)
         else if take 6 msgbuf \<noteq> MVRP_CUSTOMER_BRIDGE_ADDR then (-1, db, w)
         else case mvrp_recv_messages env sock msgbuf bytes (take 6 (drop 6 msgbuf)) (msgbuf ! 14)
                     15 0 False db w of
                (Next _, db', w') \<Rightarrow> (0, db', w')
              | (Goto, db', w') \<Rightarrow> (-1, db', w')
              | (Fault, db', w') \<Rightarrow> (-1, db', crash w'))"

section \<open>Commands of local clients\<close>

definition mvrp_dump_line :: "mvrp_attribute \<Rightarrow> string" where
  "mvrp_dump_line attrib =
     (let variant = snprintf BUFSIZE (''V:I='' @ fmt_04x (attribute attrib));
          mrp_state = mrp_decode_state (registrar attrib) (applicant attrib) 8;
          regsrc = snprintf BUFSIZE (''R='' @ fmt_hex_bytes (reg_macaddr (registrar attrib)) @ '' '' @ mrp_state)
      in snprintf BUFSIZE (variant @ '' '' @ regsrc @ newline))"

definition mvrp_dumptable :: "os \<Rightarrow> sockaddr_in \<Rightarrow> mvrp_database \<Rightarrow> world \<Rightarrow> int \<times> world" where
  "mvrp_dumptable env client db w =
     (let (ok, w1) = malloc env MAX_MRPD_CMDSZ w
      in if \<not> ok then (-1, w1)
         else let (ok_stage, w2) = malloc env BUFSIZE w1;
                  (ok_variant, w3) = malloc env BUFSIZE w2;
                  (ok_regsrc, w4) = malloc env BUFSIZE w3
              in if \<not> ok_stage \<or> \<not> ok_variant \<or> \<not> ok_regsrc then (0, w4)
                 else if attrib_list db = []
                 then (0, snd (mrpd_send_ctl_msg env client (''MVRP:Empty'' @ newline) MAX_MRPD_CMDSZ w4))
                 else (case mrp_dump_lines MAX_MRPD_CMDSZ 0 [] (map mvrp_dump_line (attrib_list db)) of
                         None \<Rightarrow> (0, crash w4)
                       | Some msgbuf \<Rightarrow> (0, snd (mrpd_send_ctl_msg env client msgbuf MAX_MRPD_CMDSZ w4))))"

text \<open>Return value and VID.\<close>

definition mvrp_cmd_parse_vid :: "string \<Rightarrow> int \<times> u16" where
  "mvrp_cmd_parse_vid buf =
     (if length buf < 9 then (-1, 0)
      else case parse (drop 4 buf) [(''I='', parse_u16_04x)] of
             (rc, _, vs) \<Rightarrow> (rc, (case vs of [Some (V_u16 v)] \<Rightarrow> v | _ \<Rightarrow> 0)))"

definition mvrp_cmd_vid ::
  "os \<Rightarrow> int \<Rightarrow> u16 \<Rightarrow> mrp_event \<Rightarrow> mvrp_database \<Rightarrow> world \<Rightarrow> int \<times> mvrp_database \<times> world" where
  "mvrp_cmd_vid env sock vid event db w =
     (case mvrp_alloc env w of
        (None, w1) \<Rightarrow> (-1, db, w1)
      | (Some a, w1) \<Rightarrow>
          let (_, db', w') = mvrp_event env sock event (Some (a\<lparr>attribute := vid\<rparr>)) db w1
          in (0, db', w'))"

text \<open>A parsed VID command: the error replies of the two failure labels.\<close>

definition mvrp_vid_cmd ::
  "os \<Rightarrow> int \<Rightarrow> mrp_event \<Rightarrow> string \<Rightarrow> sockaddr_in \<Rightarrow> mvrp_database \<Rightarrow> world \<Rightarrow> int \<times> mvrp_database \<times> world" where
  "mvrp_vid_cmd env sock event buf client db w =
     (case mvrp_cmd_parse_vid buf of
        (rc, vid) \<Rightarrow>
          if rc \<noteq> 0 then (-1, db, respond env client 12 (''ERP '' @ c_string buf) w)
          else case mvrp_cmd_vid env sock vid event db w of
                 (rc, db', w') \<Rightarrow>
                   if rc \<noteq> 0 then (-1, db', respond env client 12 (''ERI '' @ c_string buf) w')
                   else (0, db', w'))"

definition mvrp_recv_cmd ::
  "os \<Rightarrow> int \<Rightarrow> string \<Rightarrow> sockaddr_in \<Rightarrow> mvrp_database option \<Rightarrow> world \<Rightarrow>
     int \<times> mvrp_database option \<times> world" where
  "mvrp_recv_cmd env sock buf client d w =
     (case d of
        None \<Rightarrow> (-1, None, respond env client 12 (''ERC MVRP_db '' @ c_string buf @ newline) w)
      | Some db0 \<Rightarrow>
          let (_, cs, w1) = mrp_client_add env (clients (mrp_db db0)) client w;
              db = db0\<lparr>mrp_db := (mrp_db db0)\<lparr>clients := cs\<rparr>\<rparr>
          in if length buf < 3 then (-1, Some db, w1)
             else if buf ! 0 \<noteq> CHR ''V'' then (-1, Some db, w1)
             else if take 3 buf = ''V??'' then (0, Some db, snd (mvrp_dumptable env client db w1))
             else if take 3 buf = ''V--'' then
               (case mvrp_vid_cmd env sock MRP_EVENT_LV buf client db w1 of (rc, db', w') \<Rightarrow> (rc, Some db', w'))
             else if take 3 buf = ''V++'' \<or> take 3 buf = ''V+?'' then
               (case mvrp_vid_cmd env sock (if buf ! 2 = CHR ''?'' then MRP_EVENT_JOIN else MRP_EVENT_NEW)
                       buf client db w1 of (rc, db', w') \<Rightarrow> (rc, Some db', w'))
             else (-1, Some db, respond env client 12 (''ERC MVRP '' @ c_string buf) w1))"

section \<open>Initialisation and the end of a client\<close>

text \<open>Return value, \<^verbatim>\<open>mvrp_socket\<close> and \<^verbatim>\<open>MVRP_db\<close>.\<close>

definition mvrp_init ::
  "os \<Rightarrow> bool \<Rightarrow> world \<Rightarrow> int \<times> int \<times> mvrp_database option \<times> world" where
  "mvrp_init env mvrp_enable w =
     (if \<not> mvrp_enable then (0, -1, None, w)
      else let (rc, sock, w1) = mrpd_init_protocol_socket env MVRP_ETYPE MVRP_CUSTOMER_BRIDGE_ADDR w
      in if rc < 0 then (-1, sock, None, w1)
      else let (ok, w2) = malloc env 72 w1
      in if \<not> ok then (-1, -1, None, snd (mrpd_close_socket env sock w2))
      else let (rc, d, w3) = mrpd_init_timers env cleared_database w2
      in if rc < 0 then (-1, -1, None, snd (mrpd_close_socket env sock w3))
      else let (_, d', w4) = mrp_lvatimer_fsm env d MRP_EVENT_BEGIN w3
           in (0, sock, Some \<lparr>mrp_db = d', attrib_list = [], send_empty_LeaveAll_flag = False\<rparr>, w4))"

text \<open>The memory of the database is released; it may not be used any more.\<close>

definition mvrp_reset :: "mvrp_database option \<Rightarrow> mvrp_database option" where
  "mvrp_reset d = None"

definition mvrp_bye :: "sockaddr_in \<Rightarrow> mvrp_database option \<Rightarrow> mvrp_database option" where
  "mvrp_bye client d =
     map_option (\<lambda>db. db\<lparr>mrp_db := (mrp_db db)\<lparr>clients := mrp_client_delete (clients (mrp_db db)) client\<rparr>\<rparr>) d"

section \<open>The attribute list implements the store interface\<close>

lemma mvrp_add_insert_at: "mvrp_add as r = (i, as') \<Longrightarrow> i \<le> length as \<and> as' = insert_at i r as"
  by (induction as arbitrary: i as') (auto simp: Let_def split: if_splits prod.splits)

lemma mvrp_add_keys: "attribute ` set (snd (mvrp_add as r)) = insert (attribute r) (attribute ` set as)"
  by (induction as) (auto simp: Let_def split: prod.splits)

lemma mvrp_add_sorted:
  assumes "sorted_wrt (<) (map attribute as)" "\<forall>a \<in> set as. attribute a \<noteq> attribute r"
  shows "sorted_wrt (<) (map attribute (snd (mvrp_add as r)))"
  using assms
proof (induction as)
  case (Cons a as)
  show ?case
  proof (cases "attribute a < attribute r")
    case True
    have "attribute a < attribute x" if "x \<in> set (snd (mvrp_add as r))" for x
    proof -
      have "attribute x \<in> insert (attribute r) (attribute ` set as)" using that mvrp_add_keys by blast
      then show ?thesis using Cons.prems(1) True by auto
    qed
    then show ?thesis using True Cons by (auto simp: Let_def split: prod.splits)
  next
    case False
    then have "attribute r < attribute a" using Cons.prems(2) by (metis list.set_intros(1) linorder_neqE)
    then show ?thesis using False Cons.prems by auto
  qed
qed simp

interpretation mvrp_store: registering_store mvrp_lookup mvrp_add mvrp_merge "\<lambda>vid. vid" "sorted_wrt (<)"
proof unfold_locales
  fix as :: "mvrp_attribute list" and r i as' a
  show "mvrp_lookup as r = Some i \<Longrightarrow> i < length as \<and> attribute (as ! i) = attribute r"
    by (auto simp: mvrp_lookup_def dest: find_pos_Some)
  show "mvrp_lookup as r = None \<Longrightarrow> a \<in> set as \<Longrightarrow> attribute a \<noteq> attribute r"
    by (simp add: mvrp_lookup_def find_pos_None)
  show "mvrp_add as r = (i, as') \<Longrightarrow> i \<le> length as \<and> as' = insert_at i r as"
    by (rule mvrp_add_insert_at)
  show "keys_sorted (\<lambda>vid. vid) (sorted_wrt (<)) as \<Longrightarrow> mvrp_lookup as r = None \<Longrightarrow>
      keys_sorted (\<lambda>vid. vid) (sorted_wrt (<)) (snd (mvrp_add as r))"
    by (simp add: keys_sorted_def mvrp_lookup_def find_pos_None mvrp_add_sorted)
qed (simp_all add: mvrp_merge_def strict_sorted_iff)

end
