(* ===== verification/Mvrp_Correct.thy ===== *)
theory Mvrp_Correct
  imports Mvrp
begin

text \<open>
  Correctness of the MVRP event handler: the invariant of the database and its preservation by
  every input, and the refinement of the handler to the set of VIDs the local applications
  declared.
\<close>

abbreviation mvrp_inv :: "mvrp_database \<Rightarrow> bool" where
  "mvrp_inv \<equiv> app_inv (\<lambda>vid. vid) (sorted_wrt (<))"

abbreviation mvrp_core :: "mvrp_attribute list \<Rightarrow> mrp_database \<Rightarrow> bool" where
  "mvrp_core \<equiv> list_core (\<lambda>vid. vid) (sorted_wrt (<))"

section \<open>Transmission\<close>

lemma mvrp_emit_safe: "emit_safe mvrp_emit_params"
  by (simp add: emit_safe_def mvrp_emit_params_def)

lemma mvrp_emit_regular: "emit_regular mvrp_emit_params"
  by (simp add: emit_regular_def mvrp_emit_params_def)

lemma mvrp_emit_cases:
  assumes "mvrp_emit_vidvectors (mrp_frame_buffer dest src etype version) 15 MAX_FRAME_SIZE l s as = (r, as')"
  shows "tx_cleared as as' \<and> (case r of Fault \<Rightarrow> False | Goto \<Rightarrow> True
     | Next (buf, n) \<Rightarrow> length buf = MAX_FRAME_SIZE \<and> 15 + n \<le> MAX_FRAME_SIZE)"
proof -
  let ?b = "mrp_frame_buffer dest src etype version"
  have "case emit_message mvrp_emit_params ?b 15 MAX_FRAME_SIZE l s as of
      (Next (buf', n), _) \<Rightarrow> length buf' = length ?b \<and> 15 + n \<le> MAX_FRAME_SIZE
    | (Goto, _) \<Rightarrow> True | (Fault, _) \<Rightarrow> False"
    by (rule emit_message_safe [OF mvrp_emit_safe])
       (simp_all add: mvrp_emit_params_def vector_fits_def MAX_FRAME_SIZE_def)
  moreover have "tx_cleared as as'"
    using assms emit_message_tx_cleared [of as mvrp_emit_params ?b 15 MAX_FRAME_SIZE l s]
    by (simp add: mvrp_emit_vidvectors_def)
  ultimately show ?thesis
    using assms by (auto simp: mvrp_emit_vidvectors_def split: flow.splits)
qed

lemma mvrp_txpdu_step:
  assumes "mvrp_txpdu env sock db w = (rc, db', w')"
  shows "extends w w' \<and> tx_cleared (attrib_list db) (attrib_list db') \<and>
    timer_frame (mrp_db db) (mrp_db db') \<and> send_empty_LeaveAll_flag db' = send_empty_LeaveAll_flag db"
proof -
  obtain ok w1 where m: "malloc env MAX_FRAME_SIZE w = (ok, w1)" by (cases "malloc env MAX_FRAME_SIZE w")
  have e1: "extends w w1" using extends_malloc [of w env MAX_FRAME_SIZE] m by simp
  show ?thesis
  proof (cases ok)
    case False
    then show ?thesis using assms m e1 by (simp add: mvrp_txpdu_def)
  next
    case True
    let ?b = "mrp_frame_buffer MVRP_CUSTOMER_BRIDGE_ADDR (station_addr w) MVRP_ETYPE MVRP_PROT_VER"
    obtain r as where e: "mvrp_emit_vidvectors ?b 15 MAX_FRAME_SIZE (lva_tx (lva (mrp_db db)))
        (send_empty_LeaveAll_flag db) (attrib_list db) = (r, as)" by (metis prod.exhaust)
    note c = mvrp_emit_cases [OF e]
    show ?thesis
    proof (cases r)
      case (Next x)
      obtain buf n where x: "x = (buf, n)" by (cases x)
      show ?thesis
      proof (cases "n = 0 \<or> \<not> 15 + n + 2 < MAX_FRAME_SIZE")
        case True
        then show ?thesis using assms m e c e1 Next x \<open>ok\<close>
          by (auto simp: mvrp_txpdu_def Let_def simp del: wr_bytes.simps split: if_splits)
      next
        case False
        then obtain frame where "wr_bytes buf (15 + n) [0, 0] = Some frame"
          using c Next x wr_bytes_Some [of "15 + n" "[0, 0]" buf] by auto
        moreover have "extends w1 (snd (mrpd_send env sock f w1))" for f
          by (simp add: mrpd_send_def)
        ultimately show ?thesis
          using assms m e c e1 Next x \<open>ok\<close> False
          by (auto simp: mvrp_txpdu_def Let_def case_prod_unfold simp del: wr_bytes.simps
              intro: extends_trans [OF e1])
      qed
    next
      case Goto
      then show ?thesis using assms m e c e1 True by (auto simp: mvrp_txpdu_def)
    next
      case Fault
      then show ?thesis using c by simp
    qed
  qed
qed

section \<open>Notifications and reclamation\<close>

lemma extends_mvrp_send_notifications [simp, intro]: "extends w (snd (mvrp_send_notifications env cs a n w))"
proof -
  obtain ok w1 where b: "alloc_notify_bufs env w = (ok, w1)" by (cases "alloc_notify_bufs env w")
  then have e: "extends w w1" using extends_alloc_notify_bufs [of w env] by simp
  with b show ?thesis
    by (cases n) (auto simp: mvrp_send_notifications_def intro: extends_trans [OF e] split: option.splits)
qed

lemma mvrp_conditional_reclaim_step:
  "mvrp_conditional_reclaim env cs a w = (freed, w') \<Longrightarrow> freed = reclaimable a \<and> extends w w'"
  by (auto simp: mvrp_conditional_reclaim_def split: if_splits)

lemma mvrp_reclaim_list_step:
  assumes "mvrp_reclaim_list env cs as w = (as', w')"
  shows "as' = filter (\<lambda>a. \<not> reclaimable a) as \<and> extends w w'"
  using assms
proof (induction as arbitrary: w as' w')
  case (Cons a as)
  obtain freed w1 where c: "mvrp_conditional_reclaim env cs a w = (freed, w1)" by (metis prod.exhaust)
  obtain bs w2 where l: "mvrp_reclaim_list env cs as w1 = (bs, w2)" by (metis prod.exhaust)
  show ?case
    using Cons.prems c l mvrp_conditional_reclaim_step [OF c] Cons.IH [OF l] extends_trans [of w w1 w2] by auto
qed simp

section \<open>The cases of the event handler\<close>

interpretation mvrp_tx: transmitter "\<lambda>vid. vid" "sorted_wrt (<)" mvrp_txpdu mvrp_send_notifications "\<lambda>_ _. True"
  by unfold_locales (use mvrp_txpdu_step in blast, use mvrp_txpdu_step in blast, simp)

abbreviation mvrp_case_ok :: "mvrp_database \<Rightarrow> world \<Rightarrow> mvrp_database \<times> world \<Rightarrow> bool" where
  "mvrp_case_ok \<equiv> case_ok (\<lambda>vid. vid) (sorted_wrt (<)) True"

text \<open>The cases that are the shared ones.\<close>

lemma mvrp_event_shared:
  "mvrp_event_LVATIMER env sock = app_event_LVATIMER (\<lambda>env. mvrp_txpdu env sock) env"
  "mvrp_event_TX env sock = app_event_TX (\<lambda>env. mvrp_txpdu env sock) env"
  "mvrp_event_PERIODIC env = app_event_PERIODIC env"
  "mvrp_notify env = app_notify mvrp_send_notifications env"
  by (rule ext, rule ext, simp only: mvrp_event_LVATIMER_def app_event_LVATIMER_def mvrp_event_TX_def app_event_TX_def
      mvrp_event_PERIODIC_def app_event_PERIODIC_def mvrp_notify_def app_notify_def)+

lemma mvrp_event_RLA_ok:
  assumes "timers_ok env" "mvrp_inv db"
  shows "mvrp_case_ok db w (mvrp_event_RLA env db w)"
proof -
  obtain r1 d1 w1 where j: "mrp_jointimer_start env (mrp_db db) w = (r1, d1, w1)" by (metis prod_cases3)
  note J = mrp_jointimer_start_frame [OF j]
  let ?db = "db\<lparr>mrp_db := d1\<rparr>"
  have "mvrp_core (attrib_list ?db) (mrp_db ?db)" "\<not> send_empty_LeaveAll_flag ?db"
    using J assms(2) by (auto simp: app_inv_alt intro: list_core_timerI)
  then have "mvrp_case_ok ?db w1 (app_event_RLA (\<lambda>_. True) env ?db w1)" by (rule app_event_RLA_ok [OF assms(1)])
  then have "mvrp_case_ok db w (app_event_RLA (\<lambda>_. True) env ?db w1)"
    using J extends_trans [of w w1] by (simp add: case_ok_def timer_frame_def split: prod.splits)
  moreover have "mvrp_event_RLA env db w = app_event_RLA (\<lambda>_. True) env ?db w1"
    using j by (simp add: mvrp_event_RLA_def app_event_RLA_def)
  ultimately show ?thesis by simp
qed

text \<open>After the leave timer nothing is leaving any more and nothing idle is kept.\<close>

lemma mvrp_lvtimer_loop_step:
  assumes "mvrp_lvtimer_loop env as db w = (as', db', w')"
  shows "db' = db \<and> extends w w' \<and> subseq (map attribute as') (map attribute as) \<and>
    ((\<forall>a \<in> set as. sendable a) \<longrightarrow> (\<forall>a \<in> set as'. sendable a)) \<and>
    (\<forall>a \<in> set as'. reg_state (registrar a) \<noteq> MRP_LV_STATE \<and> \<not> reclaimable a) \<and>
    declared_set as' = declared_set as"
  using assms
proof (induction as arbitrary: db w as' db' w')
  case (Cons a as)
  obtain a1 where r: "attrib_registrar env MRP_EVENT_LVTIMER a db w = (a1, db, w)"
    and a1: "attribute a1 = attribute a" "applicant a1 = applicant a" "reg_state (registrar a1) \<noteq> MRP_LV_STATE"
    by (simp add: attrib_registrar_LVTIMER)
  obtain freed w2 where c: "mvrp_conditional_reclaim env (clients db) a1 w = (freed, w2)" by (metis prod.exhaust)
  obtain bs db2 w3 where l: "mvrp_lvtimer_loop env as db w2 = (bs, db2, w3)" by (metis prod_cases3)
  note C = mvrp_conditional_reclaim_step [OF c] and L = Cons.IH [OF l]
  have res: "as' = (if freed then bs else a1 # bs)" "db' = db2" "w' = w3" using Cons.prems r c l by auto
  have s: "sendable a1 = sendable a" by (rule sendable_applicant_eq) (rule a1(2))
  have "extends w w3" using C L extends_trans by blast
  moreover have "declared_set as' = declared_set (a # as)"
  proof (cases freed)
    case True
    then have "\<not> declares (app_state (applicant a))" using C reclaimable_not_declared [of a1] a1 by simp
    with True L res show ?thesis by (auto simp: declared_set_def)
  next
    case False
    have "declared_set (x # xs) = (if declares (app_state (applicant x)) then {attribute x} else {}) \<union> declared_set xs"
      for x :: mvrp_attribute and xs by (auto simp: declared_set_def)
    with False L res a1 show ?thesis by simp
  qed
  ultimately show ?case using C L a1 s by (auto simp: res)
qed (simp add: list_emb_Nil)

lemma mvrp_event_LVTIMER_ok:
  assumes "mvrp_inv db"
  shows "mvrp_case_ok db w (mvrp_event_LVTIMER env db w)"
proof -
  obtain r1 d1 w1 where j: "mrp_lvtimer_stop env (mrp_db db) w = (r1, d1, w1)" by (metis prod_cases3)
  obtain as d2 w2 where l: "mvrp_lvtimer_loop env (attrib_list db) d1 w1 = (as, d2, w2)" by (metis prod_cases3)
  note L = mvrp_lvtimer_loop_step [OF l]
  have J: "clients d1 = clients (mrp_db db) \<and> extends w w1"
    using j by (auto simp: mrp_lvtimer_stop_def mrpd_timer_stop_def split: prod.splits)
      (metis extends_call_os snd_conv)
  have "keys_sorted (\<lambda>vid. vid) (sorted_wrt (<)) as"
    by (rule keys_sorted_sub [of _ _ "attrib_list db"]) (use L assms in \<open>auto simp: app_inv_alt list_core_def\<close>)
  then have "mvrp_core as d2" using L assms by (auto simp: list_core_def app_inv_alt lv_ok_def lv_ok1_def)
  moreover have "list_keeps (attrib_list db) (mrp_db db) w as d2 w2"
    using J L by (auto simp: list_keeps_def intro: extends_trans)
  ultimately show ?thesis
    using j l assms by (simp add: case_ok_def list_keeps_def mvrp_event_LVTIMER_def app_inv_alt)
qed

lemma mvrp_event_attrib_step:
  assumes "mvrp_event_attrib env e r db w = (db', w')" "timers_ok env" "attr_new r"
    and "mvrp_core (attrib_list db) (mrp_db db)"
  shows "mvrp_core (attrib_list db') (mrp_db db') \<and> extends w w' \<and> clients (mrp_db db') = clients (mrp_db db) \<and>
    send_empty_LeaveAll_flag db' = send_empty_LeaveAll_flag db \<and>
    declared_set (attrib_list db') =
      {x. if x = attribute r then mad_declared (x \<in> declared_set (attrib_list db)) e
          else x \<in> declared_set (attrib_list db)}"
proof -
  obtain i as d1 w1 where ev: "attribs_event mvrp_lookup mvrp_add mvrp_merge env e r (attrib_list db) (mrp_db db) w =
      (i, as, d1, w1)" by (metis prod_cases4)
  obtain freed w2 where c: "mvrp_conditional_reclaim env (clients d1) (as ! i) w1 = (freed, w2)" by (metis prod.exhaust)
  have res: "db' = db\<lparr>mrp_db := d1, attrib_list := if freed then remove_at i as else as\<rparr>" "w' = w2"
    using assms(1) ev c by (auto simp: mvrp_event_attrib_def)
  note E = mvrp_store.event_core [OF ev assms(4,2) attr_new_sendable [OF assms(3)] attr_new_lv_ok1 [OF assms(3)]]
    and C = mvrp_conditional_reclaim_step [OF c]
  have srt: "keys_sorted (\<lambda>vid. vid) (sorted_wrt (<)) (attrib_list db)" using assms(4) by (simp add: list_core_def)
  have D: "declared_set as = {x. if x = attribute r then mad_declared (x \<in> declared_set (attrib_list db)) e
          else x \<in> declared_set (attrib_list db)}"
    using mvrp_store.event_declared [OF ev srt] assms(3) by (simp add: attr_new_def)
  have "declared_set (attrib_list db') = declared_set as"
    using C E declared_set_remove_at [of i as] reclaimable_not_declared [of "as ! i"] by (auto simp: res)
  moreover have "mvrp_core (attrib_list db') (mrp_db db')"
    using E by (auto simp: res intro: list_core_remove_at)
  ultimately show ?thesis
    using C E D extends_trans [of w w1 w2] by (simp add: res)
qed

section \<open>The event handler\<close>

lemma mvrp_event_ok:
  assumes "mvrp_event env sock e r db w = (rc, db', w')" "timers_ok env" "mvrp_inv db" "\<forall>a. r = Some a \<longrightarrow> attr_new a"
    and "e \<notin> attrib_events \<Longrightarrow> r = None"
  shows "mvrp_inv db' \<and> extends w w' \<and> clients (mrp_db db') = clients (mrp_db db) \<and>
    declared_set (attrib_list db') = declared_spec e r (declared_set (attrib_list db))"
proof (cases "e \<in> attrib_events")
  case False
  then have r: "r = None" using assms(5) by simp
  let ?res = "case e of MRP_EVENT_LVATIMER \<Rightarrow> mvrp_event_LVATIMER env sock db w
                  | MRP_EVENT_RLA \<Rightarrow> mvrp_event_RLA env db w
                  | MRP_EVENT_TX \<Rightarrow> mvrp_event_TX env sock db w
                  | MRP_EVENT_LVTIMER \<Rightarrow> mvrp_event_LVTIMER env db w
                  | MRP_EVENT_PERIODIC \<Rightarrow> mvrp_event_PERIODIC env db w
                  | _ \<Rightarrow> (db, w)"
  have "mvrp_case_ok db w (db, w)" using assms(3) by (rule case_ok_refl)
  then have ok: "mvrp_case_ok db w ?res"
    using assms(2,3) mvrp_event_RLA_ok mvrp_event_LVTIMER_ok
    by (cases e) (simp_all add: mvrp_event_shared mvrp_tx.event_LVATIMER_ok mvrp_tx.event_TX_ok app_event_PERIODIC_ok)
  obtain db2 w2 where res: "?res = (db2, w2)" by (metis prod.exhaust)
  obtain db3 w3 where n: "mvrp_notify env db2 w2 = (db3, w3)" by (metis prod.exhaust)
  have eq: "db' = db3" "w' = w3" using assms(1) False res n by (auto simp: mvrp_event_def)
  show ?thesis
    using mvrp_tx.case_notify [OF _ n [unfolded mvrp_event_shared], of True db w] ok res
    by (simp add: eq r declared_spec_def)
next
  case True
  obtain r1 d1 w1 where j: "mrp_jointimer_start env (mrp_db db) w = (r1, d1, w1)" by (metis prod_cases3)
  let ?db = "db\<lparr>mrp_db := d1\<rparr>"
  note J = mrp_jointimer_start_frame [OF j]
  have core: "mvrp_core (attrib_list ?db) (mrp_db ?db)"
    using J assms(3) by (auto simp: app_inv_alt intro: list_core_timerI)
  show ?thesis
  proof (cases r)
    case None
    then show ?thesis
      using assms(1,3) True j J core
      by (auto simp: mvrp_event_def declared_spec_def app_inv_alt timer_frame_def)
  next
    case (Some a)
    obtain db2 w2 where e: "mvrp_event_attrib env e a ?db w1 = (db2, w2)" by (metis prod.exhaust)
    obtain db3 w3 where n: "mvrp_notify env db2 w2 = (db3, w3)" by (metis prod.exhaust)
    have eq: "db' = db3" "w' = w3" using assms(1) True Some j e n by (auto simp: mvrp_event_def)
    have "attr_new a" using assms(4) Some by simp
    note E = mvrp_event_attrib_step [OF e assms(2) this core]
    note N = mvrp_tx.notify_step [OF n [unfolded mvrp_event_shared]]
    have "mvrp_inv db3 \<and> list_keeps (attrib_list db2) (mrp_db db2) w2 (attrib_list db3) (mrp_db db3) w3"
      using N E assms(3) by (auto simp: app_inv_alt)
    moreover have "declared_set (attrib_list db2) = declared_spec e (Some a) (declared_set (attrib_list db))"
      unfolding declared_spec_attrib [OF True, symmetric] using E by simp
    moreover have "extends w w2" using E J extends_trans by blast
    ultimately show ?thesis
      using E J extends_trans [of w w2 w3] by (simp add: eq Some list_keeps_def timer_frame_def)
  qed
qed

end
