(* ===== verification/Mvrp_Recv.thy ===== *)
theory Mvrp_Recv
  imports Mvrp_Correct
begin

text \<open>
  Correctness of the MVRP receive functions: every received frame keeps the invariant and
  the declarations of the local clients, and a frame of at most 1996 bytes is read without
  an access outside the receive buffer.
\<close>

section \<open>Reception\<close>

text \<open>What reception keeps: the invariant, the clients and the declarations.\<close>

definition mvrp_recv_keeps :: "mvrp_database \<Rightarrow> world \<Rightarrow> mvrp_database \<Rightarrow> world \<Rightarrow> bool" where
  "mvrp_recv_keeps db w db' w' \<longleftrightarrow> mvrp_inv db' \<and> extends w w' \<and>
     clients (mrp_db db') = clients (mrp_db db) \<and> declared_set (attrib_list db') = declared_set (attrib_list db)"

lemma mvrp_recv_keeps_trans:
  "mvrp_recv_keeps db w db1 w1 \<Longrightarrow> mvrp_recv_keeps db1 w1 db2 w2 \<Longrightarrow> mvrp_recv_keeps db w db2 w2"
  by (auto simp: mvrp_recv_keeps_def intro: extends_trans)

lemma mvrp_alloc_step:
  "mvrp_alloc env w = (r, w') \<Longrightarrow> extends w w' \<and> (malloc_ok env \<longrightarrow> r \<noteq> None) \<and>
     (\<forall>a. r = Some a \<longrightarrow> a = fresh_attribute 0)"
  using extends_malloc [of w env 64] malloc_ok_True [of env 64 w]
  by (auto simp: mvrp_alloc_def Let_def simp del: extends_malloc split: if_splits prod.splits)

lemma mvrp_recv_evt_keeps:
  assumes "timers_ok env" "mvrp_recv_evt env sock src c (vid, db, w) = (r, vid', db', w')" "mvrp_inv db"
  shows "mvrp_recv_keeps db w db' w'"
proof -
  obtain o1 w1 where al: "mvrp_alloc env w = (o1, w1)" by (metis prod.exhaust)
  note A = mvrp_alloc_step [OF al]
  have refl: "mvrp_recv_keeps db w db w" "mvrp_recv_keeps db w db w1"
    using assms(3) A by (auto simp: mvrp_recv_keeps_def)
  show ?thesis
  proof (cases "0xFFF < vid \<or> o1 = None \<or> mrpdu_event c = None")
    case True
    then show ?thesis using assms(2) al refl by (auto simp: mvrp_recv_evt_def split: if_splits option.splits)
  next
    case False
    then obtain e where e: "mrpdu_event c = Some e" and o1: "o1 = Some (fresh_attribute 0)" using A by auto
    let ?a = "(fresh_attribute (0 :: u16))\<lparr>attribute := vid, registrar := (registrar (fresh_attribute (0 :: u16)))\<lparr>reg_macaddr := src\<rparr>\<rparr>"
    obtain rc db2 w2 where ev: "mvrp_event env sock e (Some ?a) db w1 = (rc, db2, w2)" by (metis prod_cases3)
    have "mvrp_inv db2 \<and> extends w1 w2 \<and> clients (mrp_db db2) = clients (mrp_db db) \<and>
      declared_set (attrib_list db2) = declared_spec e (Some ?a) (declared_set (attrib_list db))"
      using mvrp_event_ok [OF ev assms(1,3)] mrpdu_event_attrib [OF e] by simp
    moreover have "declared_spec e (Some ?a) D = D" for D
      using mrpdu_event_attrib [OF e] by (cases e) (auto simp: declared_spec_def)
    ultimately have "mvrp_recv_keeps db w db2 w2"
      using A by (auto simp: mvrp_recv_keeps_def intro: extends_trans)
    then show ?thesis using assms(2) False al e o1 ev by (auto simp: mvrp_recv_evt_def)
  qed
qed

lemma mvrp_recv_events_keep:
  assumes "timers_ok env" "mvrp_inv db"
    and "recv_vector (mvrp_recv_evt env sock src) buf pos n nv (vid, db, w) = (r, vid', db', w')"
  shows "mvrp_recv_keeps db w db' w'"
proof -
  let ?I = "\<lambda>(v :: u16, db', w'). mvrp_recv_keeps db w db' w'"
  have step: "?I (snd (mvrp_recv_evt env sock src c s))" if "?I s" for c s
  proof -
    obtain v db1 w1 where s: "s = (v, db1, w1)" by (metis prod_cases3)
    obtain r v' db2 w2 where e: "mvrp_recv_evt env sock src c s = (r, v', db2, w2)" by (metis prod_cases4)
    have "mvrp_recv_keeps db w db1 w1" using that s by simp
    moreover have "mvrp_recv_keeps db1 w1 db2 w2"
      by (rule mvrp_recv_evt_keeps [OF assms(1) e [unfolded s]]) (use calculation in \<open>simp add: mvrp_recv_keeps_def\<close>)
    ultimately have "mvrp_recv_keeps db w db2 w2" by (rule mvrp_recv_keeps_trans)
    then show ?thesis by (simp add: e)
  qed
  have "?I (vid, db, w)" using assms(2) by (simp add: mvrp_recv_keeps_def)
  then have "?I (snd (recv_vector (mvrp_recv_evt env sock src) buf pos n nv (vid, db, w)))"
    by (rule recv_vector_state_inv [where I = ?I, rotated]) (rule step)
  then show ?thesis unfolding assms(3) by simp
qed

lemma mvrp_recv_vector_keeps:
  assumes "timers_ok env" "mvrp_inv db" "mvrp_recv_vector env sock buf eof src p h saw db w = (r, saw', db', w')"
  shows "mvrp_recv_keeps db w db' w'"
proof -
  let ?rla = "MRPDU_VECT_LVA h \<and> \<not> saw"
  obtain r1 db1 w1 where rla: "(if ?rla then mvrp_event env sock MRP_EVENT_RLA None db w else (0, db, w)) = (r1, db1, w1)"
    by (metis prod_cases3)
  have K1: "mvrp_recv_keeps db w db1 w1"
  proof (cases ?rla)
    case True
    then have e: "mvrp_event env sock MRP_EVENT_RLA None db w = (r1, db1, w1)" using rla by simp
    show ?thesis
      using mvrp_event_ok [OF e assms(1,2)] by (simp add: mvrp_recv_keeps_def declared_spec_def)
  next
    case False
    then show ?thesis using rla assms(2) by (auto simp: mvrp_recv_keeps_def)
  qed
  then have inv: "mvrp_inv db1" by (simp add: mvrp_recv_keeps_def)
  let ?nv = "unat (MRPDU_VECT_NUMVALUES h)"
  show ?thesis
  proof (cases "?nv = 0 \<or> eof \<le> p + 2 + ?nv div 3 \<or> rd16 buf (p + 2) = None")
    case True
    then show ?thesis
      using assms(3) K1 unfolding mvrp_recv_vector_def Let_def rla prod.case
      by (cases "rd16 buf (p + 2)") (auto split: if_splits prod.splits)
  next
    case False
    then obtain vid where v: "rd16 buf (p + 2) = Some vid" by auto
    obtain r2 v2 db2 w2 where rv: "recv_vector (mvrp_recv_evt env sock src) buf (p + 4) (Suc (numvectorbytes ?nv)) ?nv
        (vid, db1, w1) = (r2, v2, db2, w2)" by (metis prod_cases4)
    have "db' = db2" "w' = w2"
      using assms(3) False unfolding mvrp_recv_vector_def Let_def rla prod.case v option.case rv by auto
    then show ?thesis
      using mvrp_recv_keeps_trans [OF K1 mvrp_recv_events_keep [OF assms(1) inv rv]] by simp
  qed
qed

lemma mvrp_recv_keeps_refl: "mvrp_inv db \<Longrightarrow> mvrp_recv_keeps db w db w"
  by (simp add: mvrp_recv_keeps_def)

lemma mvrp_recv_vectors_keeps:
  assumes "timers_ok env" "mvrp_inv db" "mvrp_recv_vectors env sock buf eof src p saw db w = (r, saw', db', w')"
  shows "mvrp_recv_keeps db w db' w'"
  using assms(2,3)
proof (induction "length buf - p" arbitrary: p saw db w rule: less_induct)
  case less
  note unf = less.prems(2) [unfolded mvrp_recv_vectors.simps [of env sock buf eof src p]]
  show ?case
  proof (cases "rd16 buf p")
    case None
    then show ?thesis using unf mvrp_recv_keeps_refl [OF less.prems(1)] by simp
  next
    case (Some h)
    obtain r1 s1 db1 w1 where v: "mvrp_recv_vector env sock buf eof src p h saw db w = (r1, s1, db1, w1)"
      by (metis prod_cases4)
    note K = mvrp_recv_vector_keeps [OF assms(1) less.prems(1) v]
    show ?thesis
    proof (cases "h = 0 \<or> r1 = Goto \<or> r1 = Fault")
      case True
      then show ?thesis
        using unf Some v K mvrp_recv_keeps_refl [OF less.prems(1)] by (auto split: if_splits)
    next
      case False
      then obtain u where r1: "r1 = Next u" by (cases r1) auto
      let ?p = "p + 4 + numvectorbytes (unat (MRPDU_VECT_NUMVALUES h))"
      have rec: "mvrp_recv_vectors env sock buf eof src ?p s1 db1 w1 = (r, saw', db', w')"
        using unf Some v r1 False by simp
      have "length buf - ?p < length buf - p" using Some by (auto simp: rd16_Some_iff)
      have "mvrp_inv db1" using K by (simp add: mvrp_recv_keeps_def)
      from mvrp_recv_keeps_trans [OF K less.hyps [OF \<open>length buf - ?p < _\<close> this rec]] show ?thesis .
    qed
  qed
qed

lemma mvrp_recv_messages_keeps:
  assumes "timers_ok env" "mvrp_inv db"
    and "mvrp_recv_messages env sock buf eof src version p endmarks saw db w = (r, db', w')"
  shows "mvrp_recv_keeps db w db' w'"
  using assms(2,3)
proof (induction "eof - p" arbitrary: p endmarks saw db w rule: less_induct)
  case less
  note unf = less.prems(2) [unfolded mvrp_recv_messages.simps [of env sock buf eof src version p]]
  note refl = mvrp_recv_keeps_refl [OF less.prems(1)]
  obtain r1 s1 db1 w1 where v: "mvrp_recv_vectors env sock buf eof src (p + 2) saw db w = (r1, s1, db1, w1)"
    by (metis prod_cases4)
  note K = mvrp_recv_vectors_keeps [OF assms(1) less.prems(1) v]
  show ?case
  proof (cases "p + 2 < eof \<and> rd_bytes buf p 2 \<noteq> None")
    case False
    then show ?thesis using unf refl by (auto split: if_splits option.splits)
  next
    case True
    then obtain msg where m: "rd_bytes buf p 2 = Some msg" by auto
    have IH: "mvrp_recv_keeps db w db' w'"
      if "mvrp_recv_messages env sock buf eof src version q e s db2 w2 = (r, db', w')" "p < q"
        "mvrp_recv_keeps db w db2 w2" for q e s db2 w2
    proof -
      have "mvrp_inv db2" using that(3) by (simp add: mvrp_recv_keeps_def)
      moreover have "eof - q < eof - p" using that(2) True by auto
      ultimately show ?thesis using mvrp_recv_keeps_trans [OF that(3)] less.hyps [OF _ _ that(1)] by blast
    qed
    consider (mark) "msg ! 0 = 0" "msg ! 1 = 0"
      | (vid) "\<not> (msg ! 0 = 0 \<and> msg ! 1 = 0)" "msg ! 0 = MVRP_VID_TYPE"
      | (other) "\<not> (msg ! 0 = 0 \<and> msg ! 1 = 0)" "msg ! 0 \<noteq> MVRP_VID_TYPE" by blast
    then show ?thesis
    proof cases
      case mark
      then show ?thesis using unf True m refl IH [of "p + 2"] by (auto simp: Let_def split: if_splits)
    next
      case vid
      show ?thesis
      proof (cases r1)
        case (Next q)
        have "p + 2 \<le> q" using mvrp_recv_vectors_advances [of env sock buf eof src "p + 2" saw db w q] v Next by simp
        then show ?thesis using unf True m refl vid v Next K IH [of q] by (auto simp: Let_def split: if_splits)
      next
        case Goto
        then show ?thesis using unf True m refl vid v K by (auto simp: Let_def split: if_splits)
      next
        case Fault
        then show ?thesis using unf True m refl vid v K by (auto simp: Let_def split: if_splits)
      qed
    next
      case other
      then show ?thesis
        using unf True m refl
        by (cases "rd16 buf (p + 2)") (auto simp: Let_def split: if_splits intro!: IH [OF _ _ refl])
    qed
  qed
qed

lemma mvrp_recv_msg_keeps:
  assumes "timers_ok env" "mvrp_inv db" "mvrp_recv_msg env sock frame db w = (rc, db', w')"
  shows "mvrp_inv db' \<and> (\<exists>w1. extends w w1 \<and> (w' = w1 \<or> w' = crash w1)) \<and> clients (mrp_db db') = clients (mrp_db db) \<and>
    declared_set (attrib_list db') = declared_set (attrib_list db)"
proof -
  obtain r db1 w1 where m: "mvrp_recv_messages env sock (recv_buffer frame) (recv_count frame)
      (take 6 (drop 6 (recv_buffer frame))) (recv_buffer frame ! 14) 15 0 False db w = (r, db1, w1)"
    by (metis prod_cases3)
  note K = mvrp_recv_messages_keeps [OF assms(1,2) m]
  show ?thesis
    using assms(2,3) m K
    by (cases r) (auto simp: mvrp_recv_msg_def Let_def mvrp_recv_keeps_def split: if_splits)
qed

section \<open>Memory safety of reception\<close>

text \<open>
  The vector loop tests the end of the frame only before the events of a vector, so it may look
  at up to four bytes behind the frame, never further.
\<close>

lemma mvrp_recv_evt_no_fault: "fst (mvrp_recv_evt env sock src c s) \<noteq> Fault"
  by (auto simp: mvrp_recv_evt_def Let_def split: prod.splits option.splits)

lemma numvectorbytes_le: "numvectorbytes n \<le> n div 3 + 1"
  by (simp add: numvectorbytes_def)

lemma mvrp_recv_vector_safe:
  assumes "eof + 4 \<le> length buf"
  shows "fst (mvrp_recv_vector env sock buf eof src p h saw db w) \<noteq> Fault \<and>
    (\<forall>u. fst (mvrp_recv_vector env sock buf eof src p h saw db w) = Next u \<longrightarrow>
       p + 4 + numvectorbytes (unat (MRPDU_VECT_NUMVALUES h)) \<le> eof + 2)"
proof -
  let ?nv = "unat (MRPDU_VECT_NUMVALUES h)"
  obtain r1 db1 w1 where rla: "(if MRPDU_VECT_LVA h \<and> \<not> saw then mvrp_event env sock MRP_EVENT_RLA None db w
      else (0, db, w)) = (r1, db1, w1)" by (metis prod_cases3)
  show ?thesis
  proof (cases "?nv = 0 \<or> eof \<le> p + 2 + ?nv div 3")
    case True
    then show ?thesis unfolding mvrp_recv_vector_def Let_def rla prod.case by auto
  next
    case False
    have le: "p + 4 + numvectorbytes ?nv \<le> eof + 2" using False numvectorbytes_le [of ?nv] by linarith
    obtain vid where v: "rd16 buf (p + 2) = Some vid" using False assms by (auto simp: rd16_def rd_def)
    have "fst (recv_vector (mvrp_recv_evt env sock src) buf (p + 4) (Suc (numvectorbytes ?nv)) ?nv (vid, db1, w1)) \<noteq> Fault"
      by (rule recv_vector_no_fault) (use mvrp_recv_evt_no_fault le assms in auto)
    then show ?thesis
      unfolding mvrp_recv_vector_def Let_def rla prod.case v option.case
      using False le by (auto simp del: recv_vector.simps split: prod.splits)
  qed
qed

lemma mvrp_recv_vectors_safe:
  assumes "eof + 4 \<le> length buf" "p \<le> eof + 2"
  shows "fst (mvrp_recv_vectors env sock buf eof src p saw db w) \<noteq> Fault"
  using assms(2)
proof (induction "length buf - p" arbitrary: p saw db w rule: less_induct)
  case less
  obtain h where h: "rd16 buf p = Some h" using less.prems assms(1) by (auto simp: rd16_def rd_def)
  obtain r1 s1 db1 w1 where v: "mvrp_recv_vector env sock buf eof src p h saw db w = (r1, s1, db1, w1)"
    by (metis prod_cases4)
  note S = mvrp_recv_vector_safe [OF assms(1), of env sock src p h saw db w]
  let ?p = "p + 4 + numvectorbytes (unat (MRPDU_VECT_NUMVALUES h))"
  have "length buf - ?p < length buf - p" using h by (auto simp: rd16_Some_iff)
  note IH = less.hyps [OF this]
  show ?case
    unfolding mvrp_recv_vectors.simps [of env sock buf eof src p] h option.case v
    using S v IH by (cases r1) auto
qed

lemma mvrp_recv_messages_safe:
  assumes "eof + 4 \<le> length buf"
  shows "fst (mvrp_recv_messages env sock buf eof src version p endmarks saw db w) \<noteq> Fault"
proof (induction "eof - p" arbitrary: p endmarks saw db w rule: less_induct)
  case less
  show ?case
  proof (cases "p + 2 < eof")
    case False
    then show ?thesis by (simp add: mvrp_recv_messages.simps [of env sock buf eof src version p])
  next
    case True
    obtain msg where m: "rd_bytes buf p 2 = Some msg" using rd_bytes_Some [of p 2 buf] True assms by auto
    obtain h where h: "rd16 buf (p + 2) = Some h" using True assms by (auto simp: rd16_def rd_def)
    obtain r1 s1 db1 w1 where v: "mvrp_recv_vectors env sock buf eof src (p + 2) saw db w = (r1, s1, db1, w1)"
      by (metis prod_cases4)
    have S: "r1 \<noteq> Fault" using mvrp_recv_vectors_safe [OF assms, of "p + 2" env sock src saw db w] True v by simp
    have A: "r1 = Next q \<Longrightarrow> p + 2 \<le> q" for q
      using mvrp_recv_vectors_advances [of env sock buf eof src "p + 2" saw db w q] v by simp
    have IH: "fst (mvrp_recv_messages env sock buf eof src version q e s d w1) \<noteq> Fault" if "p < q" for q e s d w1
      using less.hyps [of q] that True by auto
    show ?thesis
      unfolding mvrp_recv_messages.simps [of env sock buf eof src version p] m h option.case v
      using True S A by (cases r1) (auto simp: Let_def IH)
  qed
qed

end
