(* ===== verification/Mvrp_Runs.thy ===== *)
theory Mvrp_Runs
  imports Mvrp_Recv
begin

text \<open>
  All inputs of MVRP taken together: client commands, timers, received frames, garbage
  collection.  The invariant holds along every run, the declared VIDs refine the commands
  of the clients, memory safety of an input, and the round trip of a transmitted frame.
\<close>

section \<open>Commands of clients\<close>

text \<open>The VID a client command declares or withdraws.\<close>

definition mvrp_cmd_effect :: "string \<Rightarrow> u16 set \<Rightarrow> u16 set" where
  "mvrp_cmd_effect buf D =
     (case mvrp_cmd_parse_vid buf of (rc, vid) \<Rightarrow>
        if rc \<noteq> 0 then D
        else if take 3 buf = ''V--'' then D - {vid}
        else if take 3 buf = ''V++'' \<or> take 3 buf = ''V+?'' then insert vid D
        else D)"

lemma mvrp_vid_cmd_step:
  assumes "mvrp_vid_cmd env sock e buf client db w = (rc, db', w')" "timers_ok env" "mvrp_inv db"
    and e: "e \<in> {MRP_EVENT_LV, MRP_EVENT_JOIN, MRP_EVENT_NEW}"
  shows "mvrp_inv db' \<and> extends w w' \<and> clients (mrp_db db') = clients (mrp_db db) \<and>
    (malloc_ok env \<longrightarrow> declared_set (attrib_list db') =
      (case mvrp_cmd_parse_vid buf of (rc, vid) \<Rightarrow>
         if rc \<noteq> 0 then declared_set (attrib_list db)
         else if e = MRP_EVENT_LV then declared_set (attrib_list db) - {vid}
         else insert vid (declared_set (attrib_list db))))"
proof -
  obtain rp vid where p: "mvrp_cmd_parse_vid buf = (rp, vid)" by (metis prod.exhaust)
  obtain o1 w1 where al: "mvrp_alloc env w = (o1, w1)" by (metis prod.exhaust)
  note A = mvrp_alloc_step [OF al]
  let ?a = "(fresh_attribute (0 :: u16))\<lparr>attribute := vid\<rparr>"
  obtain r1 db1 w2 where ev: "mvrp_event env sock e (Some ?a) db w1 = (r1, db1, w2)" by (metis prod_cases3)
  have ea: "e \<in> attrib_events" using e by (auto simp: attrib_events_def)
  have E: "mvrp_inv db1 \<and> extends w1 w2 \<and> clients (mrp_db db1) = clients (mrp_db db) \<and>
      declared_set (attrib_list db1) = declared_spec e (Some ?a) (declared_set (attrib_list db))"
    using mvrp_event_ok [OF ev assms(2,3)] ea by simp
  show ?thesis
  proof (cases "rp = 0 \<and> o1 \<noteq> None")
    case False
    have x: "extends w (respond env client 12 m w1)" for m
      using A extends_trans extends_respond by meson
    from False have "db' = db \<and> extends w w' \<and> (malloc_ok env \<longrightarrow> rp \<noteq> 0)"
      using assms(1) p al A x [of "''ERI '' @ c_string buf"]
      by (cases "rp = 0"; cases o1) (simp_all add: mvrp_vid_cmd_def mvrp_cmd_vid_def, auto)
    then show ?thesis using assms(3) p by simp
  next
    case True
    then have "mvrp_alloc env w = (Some (fresh_attribute 0), w1)" "rp = 0" using al A by auto
    then have "db' = db1" "w' = w2"
      using assms(1) p ev by (simp_all add: mvrp_vid_cmd_def mvrp_cmd_vid_def)
    moreover have "extends w w2" using E A extends_trans by meson
    ultimately show ?thesis
      using E \<open>rp = 0\<close> p e by (elim insertE) (simp_all add: declared_spec_def)
  qed
qed

section \<open>All inputs of the protocol\<close>

fun mvrp_exec :: "os \<Rightarrow> int \<Rightarrow> mvrp_database option \<times> world \<Rightarrow> mrp_input \<Rightarrow> mvrp_database option \<times> world" where
  "mvrp_exec env sock (None, w) i = (None, w)"
| "mvrp_exec env sock (Some db, w) In_join_timer =
     (let (_, db', w') = mvrp_event env sock MRP_EVENT_TX None db w in (Some db', w'))"
| "mvrp_exec env sock (Some db, w) In_leave_timer =
     (let (_, db', w') = mvrp_event env sock MRP_EVENT_LVTIMER None db w in (Some db', w'))"
| "mvrp_exec env sock (Some db, w) In_leaveall_timer =
     (let (_, db', w') = mvrp_event env sock MRP_EVENT_LVATIMER None db w in (Some db', w'))"
| "mvrp_exec env sock (Some db, w) In_periodic_timer =
     (let (_, db', w') = mvrp_event env sock MRP_EVENT_PERIODIC None db w in (Some db', w'))"
| "mvrp_exec env sock (Some db, w) (In_frame frame) =
     (let (_, db', w') = mvrp_recv_msg env sock frame db w in (Some db', w'))"
| "mvrp_exec env sock (Some db, w) (In_cmd buf client) =
     (let (_, d', w') = mvrp_recv_cmd env sock buf client (Some db) w in (d', w'))"
| "mvrp_exec env sock (Some db, w) In_reclaim =
     (let (_, d', w') = mvrp_reclaim env (Some db) w in (d', w'))"
| "mvrp_exec env sock (Some db, w) (In_bye client) = (mvrp_bye client (Some db), w)"

definition mvrp_run ::
  "os \<Rightarrow> int \<Rightarrow> mvrp_database option \<times> world \<Rightarrow> mrp_input list \<Rightarrow> mvrp_database option \<times> world" where
  "mvrp_run env sock = foldl (mvrp_exec env sock)"

text \<open>Specification: only commands of clients change what is declared.\<close>

fun mvrp_input_spec :: "u16 set \<Rightarrow> mrp_input \<Rightarrow> u16 set" where
  "mvrp_input_spec D (In_cmd buf client) = mvrp_cmd_effect buf D"
| "mvrp_input_spec D _ = D"

definition mvrp_declared :: "mvrp_database option \<Rightarrow> u16 set" where
  "mvrp_declared d = (case d of None \<Rightarrow> {} | Some db \<Rightarrow> declared_set (attrib_list db))"

lemma mvrp_inv_clients [simp]: "mvrp_inv (db\<lparr>mrp_db := (mrp_db db)\<lparr>clients := cs\<rparr>\<rparr>) = mvrp_inv db"
  by (simp add: app_inv_def lv_ok_def lv_ok1_def)

lemma mvrp_event_None_ok:
  assumes "timers_ok env" "mvrp_inv db" "e \<notin> attrib_events"
  shows "case mvrp_event env sock e None db w of (rc, db', w') \<Rightarrow>
    mvrp_inv db' \<and> extends w w' \<and> declared_set (attrib_list db') = declared_set (attrib_list db)"
proof -
  obtain rc db' w' where ev: "mvrp_event env sock e None db w = (rc, db', w')" by (metis prod_cases3)
  show ?thesis using mvrp_event_ok [OF ev assms(1,2)] ev by (simp add: declared_spec_def)
qed

lemma mvrp_recv_cmd_step:
  assumes "mvrp_recv_cmd env sock buf client (Some db) w = (rc, d', w')" "timers_ok env" "mvrp_inv db"
  shows "\<exists>db'. d' = Some db' \<and> mvrp_inv db' \<and>
    (malloc_ok env \<longrightarrow> declared_set (attrib_list db') = mvrp_cmd_effect buf (declared_set (attrib_list db)))"
proof -
  obtain r1 cs w1 where c: "mrp_client_add env (clients (mrp_db db)) client w = (r1, cs, w1)" by (metis prod_cases3)
  let ?db = "db\<lparr>mrp_db := (mrp_db db)\<lparr>clients := cs\<rparr>\<rparr>"
  have inv: "mvrp_inv ?db" using assms(3) by simp
  have eff: "mvrp_cmd_effect buf D = D" if "length buf < 3 \<or> buf ! 0 \<noteq> CHR ''V''" for D
  proof -
    have "take 3 buf \<noteq> ''V--'' \<and> take 3 buf \<noteq> ''V++'' \<and> take 3 buf \<noteq> ''V+?''"
      using that by (cases buf) auto
    then show ?thesis by (auto simp: mvrp_cmd_effect_def split: prod.splits)
  qed
  consider (short) "length buf < 3 \<or> buf ! 0 \<noteq> CHR ''V''"
    | (lv) "take 3 buf = ''V--''" | (join) "take 3 buf = ''V++'' \<or> take 3 buf = ''V+?''"
    | (other) "\<not> (length buf < 3 \<or> buf ! 0 \<noteq> CHR ''V'')" "take 3 buf \<noteq> ''V--''"
        "\<not> (take 3 buf = ''V++'' \<or> take 3 buf = ''V+?'')" by blast
  then show ?thesis
  proof cases
    case short
    then show ?thesis using assms(1) c inv eff by (cases "length buf < 3") (auto simp: mvrp_recv_cmd_def Let_def)
  next
    case lv
    obtain r2 db2 w2 where v: "mvrp_vid_cmd env sock MRP_EVENT_LV buf client ?db w1 = (r2, db2, w2)" by (metis prod_cases3)
    have "length buf \<ge> 3 \<and> buf ! 0 = CHR ''V''" using lv by (auto dest: take_3_Cons)
    then have "d' = Some db2" using assms(1) c v lv by (auto simp: mvrp_recv_cmd_def Let_def)
    then show ?thesis
      using mvrp_vid_cmd_step [OF v assms(2) inv] lv by (auto simp: mvrp_cmd_effect_def split: prod.splits)
  next
    case join
    let ?e = "if buf ! 2 = CHR ''?'' then MRP_EVENT_JOIN else MRP_EVENT_NEW"
    obtain r2 db2 w2 where v: "mvrp_vid_cmd env sock ?e buf client ?db w1 = (r2, db2, w2)" by (metis prod_cases3)
    have "length buf \<ge> 3 \<and> buf ! 0 = CHR ''V''" using join by (auto dest: take_3_Cons)
    then have "d' = Some db2" using assms(1) c v join by (auto simp: mvrp_recv_cmd_def Let_def)
    then show ?thesis
      using mvrp_vid_cmd_step [OF v assms(2) inv] join by (auto simp: mvrp_cmd_effect_def split: prod.splits if_splits)
  next
    case other
    then show ?thesis using assms(1) c inv by (auto simp: mvrp_recv_cmd_def Let_def mvrp_cmd_effect_def split: if_splits prod.splits)
  qed
qed

lemma mvrp_inv_filter: "mvrp_inv db \<Longrightarrow> mvrp_inv (db\<lparr>attrib_list := filter P (attrib_list db)\<rparr>)"
  by (simp add: app_inv_alt list_core_filter)

text \<open>What one input does: the invariant is kept, the declarations follow the specification.\<close>

lemma mvrp_exec_step:
  assumes "timers_ok env" "mvrp_inv db"
  shows "\<exists>db' w'. mvrp_exec env sock (Some db, w) i = (Some db', w') \<and> mvrp_inv db' \<and>
    (malloc_ok env \<longrightarrow> mvrp_declared (Some db') = mvrp_input_spec (mvrp_declared (Some db)) i)"
proof -
  note timer = mvrp_event_None_ok [OF assms, where sock = sock and w = w]
  show ?thesis
  proof (cases i)
    case (In_frame f)
    obtain rc db' w' where m: "mvrp_recv_msg env sock f db w = (rc, db', w')" by (metis prod_cases3)
    show ?thesis using mvrp_recv_msg_keeps [OF assms m] m In_frame by (simp add: mvrp_declared_def)
  next
    case (In_cmd buf c)
    obtain rc d' w' where m: "mvrp_recv_cmd env sock buf c (Some db) w = (rc, d', w')" by (metis prod_cases3)
    show ?thesis using mvrp_recv_cmd_step [OF m assms] m In_cmd by (auto simp: mvrp_declared_def)
  next
    case In_reclaim
    obtain as w' where m: "mvrp_reclaim_list env (clients (mrp_db db)) (attrib_list db) w = (as, w')"
      by (metis prod.exhaust)
    show ?thesis
      using mvrp_reclaim_list_step [OF m] m In_reclaim assms(2)
      by (simp add: mvrp_reclaim_def mvrp_declared_def mvrp_inv_filter declared_set_reclaim)
  next
    case (In_bye c)
    then show ?thesis using assms(2) by (simp add: mvrp_bye_def mvrp_declared_def)
  next
    case In_join_timer
    then show ?thesis
      using timer [of MRP_EVENT_TX] by (auto simp: attrib_events_def mvrp_declared_def split: prod.splits)
  next
    case In_leave_timer
    then show ?thesis
      using timer [of MRP_EVENT_LVTIMER] by (auto simp: attrib_events_def mvrp_declared_def split: prod.splits)
  next
    case In_leaveall_timer
    then show ?thesis
      using timer [of MRP_EVENT_LVATIMER] by (auto simp: attrib_events_def mvrp_declared_def split: prod.splits)
  next
    case In_periodic_timer
    then show ?thesis
      using timer [of MRP_EVENT_PERIODIC] by (auto simp: attrib_events_def mvrp_declared_def split: prod.splits)
  qed
qed

interpretation mvrp_inputs: input_system mvrp_exec mvrp_inv "\<lambda>db. declared_set (attrib_list db)" mvrp_input_spec
  by unfold_locales (use mvrp_exec_step in \<open>simp add: mvrp_declared_def\<close>)

lemma mvrp_run_step:
  assumes "timers_ok env" "mvrp_inv db"
  shows "\<exists>db' w'. mvrp_run env sock (Some db, w) ins = (Some db', w') \<and> mvrp_inv db' \<and>
    (malloc_ok env \<longrightarrow> mvrp_declared (Some db') = foldl mvrp_input_spec (mvrp_declared (Some db)) ins)"
  using mvrp_inputs.run_step [OF assms] by (simp add: mvrp_run_def mvrp_declared_def)

lemma mvrp_init_step:
  assumes "mvrp_init env True w = (rc, sock, Some db, w')"
  shows "mvrp_inv db \<and> attrib_list db = []"
  using assms
  by (auto simp: mvrp_init_def app_inv_def keys_sorted_def lv_ok_def Let_def split: if_splits prod.splits)


lemma mvrp_init_example: "\<exists>db0 w1. mvrp_init example_os True boot_world = (0, 3, Some db0, w1)"
  by (simp add: mvrp_init_def mrpd_init_protocol_socket_def boot_world_def Let_def example_os_def
      call_os_def malloc_def mrpd_init_timers_def mrpd_timer_create_def split: prod.splits)

definition mvrp_cmd_example :: "string \<Rightarrow> string" where
  "mvrp_cmd_example cmd = cmd @ [CHR 0x00]"

lemma mvrp_effect_examples:
  "mvrp_cmd_effect (mvrp_cmd_example ''V++:I=0002'') D = insert 2 D"
  "mvrp_cmd_effect (mvrp_cmd_example ''V+?:I=0005'') D = insert 5 D"
  "mvrp_cmd_effect (mvrp_cmd_example ''V--:I=0002'') D = D - {2}"
  by (simp_all add: mvrp_cmd_effect_def mvrp_cmd_parse_vid_def mvrp_cmd_example_def parse_eval)


text \<open>
  C11: The VIDs a participant declares are those its clients asked for: after any sequence
  of inputs, the set of VIDs whose applicant declares is what \<^verbatim>\<open>V++\<close>,
  \<^verbatim>\<open>V+?\<close> (insert) and \<^verbatim>\<open>V--\<close> (remove) make of the empty set; timers, received
  frames, garbage collection and disconnecting clients do not change it.
\<close>

theorem mvrp_refines_declared_vids:
  assumes "timers_ok env" "malloc_ok env" "mvrp_init env True w0 = (rc, sock, Some db0, w1)"
  shows "mvrp_declared (fst (mvrp_run env sock (Some db0, w1) ins)) = foldl mvrp_input_spec {} ins"
proof -
  have "mvrp_declared (Some db0) = {}"
    using mvrp_init_step [OF assms(3)] by (simp add: mvrp_declared_def declared_set_def)
  then show ?thesis
    using mvrp_run_step [OF assms(1), of db0 sock w1 ins] mvrp_init_step [OF assms(3)] assms(2) by auto
qed

theorem mvrp_refines_declared_vids_witness:
  "\<exists>db0 w1. mvrp_init example_os True boot_world = (0, 3, Some db0, w1) \<and>
     mvrp_declared (fst (mvrp_run example_os 3 (Some db0, w1)
       [In_cmd (mvrp_cmd_example ''V++:I=0002'') example_client, In_join_timer,
        In_cmd (mvrp_cmd_example ''V+?:I=0005'') example_client, In_leaveall_timer,
        In_cmd (mvrp_cmd_example ''V--:I=0002'') example_client])) = {5}"
proof -
  obtain db0 w1 where i: "mvrp_init example_os True boot_world = (0, 3, Some db0, w1)"
    using mvrp_init_example by blast
  show ?thesis
    by (intro exI conjI, rule i)
      (auto simp: mvrp_refines_declared_vids [OF timers_ok_example malloc_ok_example i] mvrp_effect_examples)
qed

end
