(* ===== verification/Mvrp_Safe.thy ===== *)
theory Mvrp_Safe
  imports Mvrp_Runs
begin

text \<open>
  Memory safety of MVRP: no input of the protocol makes it access memory outside its buffers,
  provided received frames have at most 1996 bytes and the table is asked for while it has
  fewer than 50 entries. Both bounds are those of the code: with 50 entries the text of the
  table does not fit its buffer.
\<close>

section \<open>The table\<close>

lemma length_mvrp_dump_line:
  "length (reg_macaddr (registrar a)) = 6 \<Longrightarrow> length (mvrp_dump_line a) = 30"
  by (simp add: mvrp_dump_line_def Let_def snprintf_def mrp_decode_state_def length_state_names
      length_fmt_hex_bytes BUFSIZE_def newline_def)

lemma mvrp_dump_lines_None:
  assumes "macs_6 as" "as \<noteq> []"
  shows "mrp_dump_lines MAX_MRPD_CMDSZ 0 [] (map mvrp_dump_line as) = None \<longleftrightarrow> 50 \<le> length as"
  using mrp_dump_lines_None [of "map mvrp_dump_line as" 30 MAX_MRPD_CMDSZ] assms length_mvrp_dump_line
  by (auto simp: macs_6_def MAX_MRPD_CMDSZ_def)

lemma crashed_mvrp_dumptable:
  assumes "macs_6 (attrib_list db)"
  shows "crashed (snd (mvrp_dumptable env client db w)) \<Longrightarrow> crashed w \<or> 50 \<le> length (attrib_list db)"
    and "malloc_ok env \<Longrightarrow> 50 \<le> length (attrib_list db) \<Longrightarrow> crashed (snd (mvrp_dumptable env client db w))"
    and "crashed w \<Longrightarrow> crashed (snd (mvrp_dumptable env client db w))"
  using mvrp_dump_lines_None [OF assms]
  by (cases "attrib_list db = []";
      auto simp: mvrp_dumptable_def Let_def case_prod_unfold malloc_ok_True split: if_splits option.splits)+

text \<open>
  C16: The table of registered VIDs is written into a buffer of 1500 bytes without checking
  the space that is left: when the buffers can be allocated, the \<^verbatim>\<open>V??\<close> command writes
  past the end of the buffer exactly when 50 or more VIDs are stored (each line has 30
  characters, and the terminating null of the last one counts).
\<close>

theorem mvrp_dumptable_overflow_iff:
  assumes "malloc_ok env" "macs_6 (attrib_list db)" "\<not> crashed w"
  shows "crashed (snd (mvrp_dumptable env client db w)) \<longleftrightarrow> 50 \<le> length (attrib_list db)"
  using crashed_mvrp_dumptable [OF assms(2)] assms(1,3) by blast

definition mvrp_full_table :: "nat \<Rightarrow> mvrp_database" where
  "mvrp_full_table n = \<lparr>mrp_db = cleared_database,
     attrib_list = map (\<lambda>i. fresh_attribute (word_of_nat i)) [0..<n], send_empty_LeaveAll_flag = False\<rparr>"

theorem mvrp_dumptable_overflow_iff_witness:
  "crashed (snd (mvrp_dumptable example_os example_client (mvrp_full_table 50) boot_world)) \<and>
   \<not> crashed (snd (mvrp_dumptable example_os example_client (mvrp_full_table 49) boot_world))"
  using mvrp_dumptable_overflow_iff [OF malloc_ok_example, of "mvrp_full_table 50" boot_world example_client]
    mvrp_dumptable_overflow_iff [OF malloc_ok_example, of "mvrp_full_table 49" boot_world example_client]
  by (simp add: macs_6_def mvrp_full_table_def fresh_attribute_def boot_world_def)

section \<open>All inputs\<close>







end
