(* ===== verification/Mvrp_Wire.thy ===== *)
theory Mvrp_Wire
  imports Mvrp_Runs
begin

text \<open>
  The MVRP frame format, from sender to receiver: the frame one participant transmits is read
  by another as exactly the events the sender's applicants asked for.
\<close>

section \<open>Reading what was written\<close>

text \<open>One value heard from a peer: a new attribute with the sender's address, and its event.\<close>

definition mvrp_hear ::
  "os \<Rightarrow> int \<Rightarrow> bytes \<Rightarrow> u16 \<times> nat \<Rightarrow> mvrp_database \<times> world \<Rightarrow> mvrp_database \<times> world" where
  "mvrp_hear env sock src ve s =
     (case (ve, s) of ((vid, e), (db, w)) \<Rightarrow>
        let a = fresh_attribute vid;
            a = a\<lparr>registrar := (registrar a)\<lparr>reg_macaddr := src\<rparr>\<rparr>
        in snd (mvrp_event env sock (the (mrpdu_event e)) (Some a) db (snd (mvrp_alloc env w))))"

definition mvrp_hear_leaveall :: "os \<Rightarrow> int \<Rightarrow> bool \<Rightarrow> mvrp_database \<times> world \<Rightarrow> mvrp_database \<times> world" where
  "mvrp_hear_leaveall env sock lv_all s =
     (if lv_all then snd (mvrp_event env sock MRP_EVENT_RLA None (fst s) (snd s)) else s)"

lemma mrpdu_event_less: "e < 6 \<Longrightarrow> mrpdu_event e \<noteq> None"
  by (auto simp: mrpdu_event_def mrpdu_codes)

lemma fresh_attribute_upd: "(fresh_attribute j)\<lparr>attribute := k, registrar := r\<rparr> = (fresh_attribute k)\<lparr>registrar := r\<rparr>"
  "registrar (fresh_attribute j) = registrar (fresh_attribute k)"
  by (simp_all add: fresh_attribute_def)

lemma mvrp_recv_evt_hear:
  assumes "malloc_ok env" "vid \<le> 0xFFF" "e < 6"
  shows "mvrp_recv_evt env sock src e (vid, db, w) = (Next (), vid + 1, mvrp_hear env sock src (vid, e) (db, w))"
proof -
  obtain ev where ev: "mrpdu_event e = Some ev" using mrpdu_event_less [OF assms(3)] by blast
  obtain w1 where al: "mvrp_alloc env w = (Some (fresh_attribute 0), w1)"
    using mvrp_alloc_step [of env w] assms(1) by (cases "mvrp_alloc env w") auto
  show ?thesis
    using assms(2) ev al fresh_attribute_upd
    by (simp add: mvrp_recv_evt_def mvrp_hear_def Let_def not_less case_prod_unfold fresh_attribute_def)
qed

lemma recv_evts_hear:
  assumes "malloc_ok env" "\<forall>e \<in> set evs. e < 6"
    and "\<forall>(k, e) \<in> set (vector_values (\<lambda>v. v + 1) vid evs). k \<le> 0xFFF"
  shows "\<exists>vid'. recv_evts (mvrp_recv_evt env sock src) evs (vid, s) =
    (Next (), vid', fold (mvrp_hear env sock src) (vector_values (\<lambda>v. v + 1) vid evs) s)"
  using assms(2,3)
proof (induction evs arbitrary: vid s)
  case (Cons e evs)
  obtain db w where s: "s = (db, w)" by (cases s)
  show ?case using Cons.IH [of "vid + 1"] Cons.prems mvrp_recv_evt_hear [OF assms(1)] s by auto
qed simp

text \<open>A vector of the message, at offset \<open>p\<close> of the buffer.\<close>

definition at :: "bytes \<Rightarrow> nat \<Rightarrow> bytes \<Rightarrow> bool" where
  "at buf p bs \<longleftrightarrow> p + length bs \<le> length buf \<and> (\<forall>i < length bs. buf ! (p + i) = bs ! i)"

lemma at_append: "at buf p (xs @ ys) \<longleftrightarrow> at buf p xs \<and> at buf (p + length xs) ys"
proof -
  have "(\<forall>i < length xs + length ys. buf ! (p + i) = (xs @ ys) ! i) \<longleftrightarrow>
      (\<forall>i < length xs. buf ! (p + i) = xs ! i) \<and> (\<forall>j < length ys. buf ! (p + length xs + j) = ys ! j)"
    (is "?l \<longleftrightarrow> ?r1 \<and> ?r2")
  proof
    assume l: ?l
    have ?r1 using l by (metis nth_append trans_less_add1)
    moreover have ?r2 using l by (metis add.assoc nat_add_left_cancel_less nth_append_length_plus)
    ultimately show "?r1 \<and> ?r2" ..
  next
    assume r: "?r1 \<and> ?r2"
    show ?l
    proof (intro allI impI)
      fix i assume i: "i < length xs + length ys"
      show "buf ! (p + i) = (xs @ ys) ! i"
      proof (cases "i < length xs")
        case False
        then have "i - length xs < length ys" "p + length xs + (i - length xs) = p + i" using i by auto
        then have "buf ! (p + i) = ys ! (i - length xs)" using r by metis
        then show ?thesis using False by (simp add: nth_append)
      qed (use r in \<open>simp add: nth_append\<close>)
    qed
  qed
  then show ?thesis by (auto simp: at_def)
qed

lemma at_take: "at buf p bs \<Longrightarrow> take (length bs) (drop p buf) = bs"
  by (auto simp: at_def intro: nth_equalityI)

lemma at_rd16:
  assumes "at buf p [h, l]" shows "rd16 buf p = Some (be16 h l)"
proof -
  have "Suc p < length buf" "buf ! p = h" "buf ! Suc p = l"
    using assms by (auto simp: at_def less_Suc_eq)
  then show ?thesis by (simp add: rd16_Some_iff)
qed

lemma at_rd_bytes: "at buf p bs \<Longrightarrow> length bs = n \<Longrightarrow> rd_bytes buf p n = Some bs"
  using rd_bytes_Some [of p n buf] at_take [of buf p bs] by (simp add: at_def)

lemma vector_bytes_mvrp:
  "vector_bytes mvrp_emit_params lv (vid, evs) =
     [hi8 (vect_header lv (length evs)), lo8 (vect_header lv (length evs))] @ [hi8 vid, lo8 vid] @ pack3 evs"
  by (simp add: vector_bytes_def mvrp_emit_params_def Let_def)

text \<open>A received vector has the effect of the events it was made of.\<close>

lemma mvrp_recv_vector_hear:
  assumes ok: "malloc_ok env" "\<forall>e \<in> set evs. e < 6" "evs \<noteq> []"
      "\<forall>(k, e) \<in> set (vector_values (\<lambda>v. v + 1) vid evs). k \<le> 0xFFF"
    and len: "length evs < 8192"
    and b: "at buf p (vector_bytes mvrp_emit_params lv (vid, evs))"
      "p + length (vector_bytes mvrp_emit_params lv (vid, evs)) < eof" "eof \<le> length buf"
    and saw: "lv \<longrightarrow> \<not> saw"
  shows "mvrp_recv_vector env sock buf eof src p (vect_header lv (length evs)) saw db w =
    (Next (), saw \<or> lv, fold (mvrp_hear env sock src) (vector_values (\<lambda>v. v + 1) vid evs)
       (mvrp_hear_leaveall env sock lv (db, w)))"
proof -
  let ?h = "vect_header lv (length evs)"
  have n: "unat (MRPDU_VECT_NUMVALUES ?h) = length evs" by (rule vect_header_numvalues [OF len])
  have parts: "at buf (p + 2) [hi8 vid, lo8 vid]" "at buf (p + 4) (pack3 evs)"
    using b(1) by (simp_all only: vector_bytes_mvrp at_append) (simp_all add: eval_nat_numeral)
  have rd: "rd16 buf (p + 2) = Some vid" using at_rd16 [OF parts(1)] by simp
  have fit: "p + 4 + length (pack3 evs) < eof" using b(2) by (simp add: vector_bytes_mvrp)
  have nv: "numvectorbytes (length evs) = length (pack3 evs)" by (simp add: numvectorbytes_eq length_pack3)
  obtain db1 w1 where l: "mvrp_hear_leaveall env sock lv (db, w) = (db1, w1)" by (metis prod.exhaust)
  obtain r0 where rla: "(if lv \<and> \<not> saw then mvrp_event env sock MRP_EVENT_RLA None db w else (0, db, w)) = (r0, db1, w1)"
    using l saw by (cases "mvrp_event env sock MRP_EVENT_RLA None db w") (auto simp: mvrp_hear_leaveall_def split: if_splits)
  obtain vid' where ev: "recv_evts (mvrp_recv_evt env sock src) evs (vid, db1, w1) =
      (Next (), vid', fold (mvrp_hear env sock src) (vector_values (\<lambda>v. v + 1) vid evs) (db1, w1))"
    using recv_evts_hear [OF ok(1,2,4)] by blast
  have rv: "recv_vector (mvrp_recv_evt env sock src) buf (p + 4) (Suc (length (pack3 evs))) (length evs) (vid, db1, w1) =
      recv_evts (mvrp_recv_evt env sock src) evs (vid, db1, w1)"
    by (rule recv_vector_pack3) (use ok fit b(3) at_take [OF parts(2)] in auto)
  have nofit: "\<not> eof \<le> p + 2 + length evs div 3" using fit by (simp add: length_pack3)
  show ?thesis
    unfolding mvrp_recv_vector_def Let_def vect_header_lva rla prod.case n nv rd option.case rv ev l
    using ok(3) nofit saw by (auto simp: case_prod_unfold)
qed

lemma mvrp_hear_leaveall_False [simp]: "mvrp_hear_leaveall env sock False s = s"
  by (simp add: mvrp_hear_leaveall_def)

definition mvrp_vectors_ok :: "(u16 \<times> nat list) list \<Rightarrow> bool" where
  "mvrp_vectors_ok vecs \<longleftrightarrow> (\<forall>(k, evs) \<in> set vecs. evs \<noteq> [] \<and> (\<forall>e \<in> set evs. e < 6)) \<and>
     (\<forall>(k, e) \<in> set (vectors_values (\<lambda>v. v + 1) vecs). k \<le> 0xFFF)"

lemma length_vector_bytes_mvrp: "length (vector_bytes mvrp_emit_params lv (vid, evs)) = 4 + numvectorbytes (length evs)"
  by (simp add: vector_bytes_mvrp length_pack3 numvectorbytes_eq)

lemma mvrp_recv_vectors_hear:
  assumes ok: "malloc_ok env" and buf: "eof \<le> length buf" "length buf \<le> 2000"
    and "mvrp_vectors_ok vecs" "at buf p (vectors_bytes mvrp_emit_params lv vecs @ [0, 0])"
      "p + length (vectors_bytes mvrp_emit_params lv vecs) < eof" "lv \<longrightarrow> \<not> saw"
  shows "mvrp_recv_vectors env sock buf eof src p saw db w =
    (Next (p + length (vectors_bytes mvrp_emit_params lv vecs)), saw \<or> (lv \<and> vecs \<noteq> []),
     fold (mvrp_hear env sock src) (vectors_values (\<lambda>v. v + 1) vecs)
       (mvrp_hear_leaveall env sock (lv \<and> vecs \<noteq> []) (db, w)))"
  using assms(4-)
proof (induction vecs arbitrary: p lv saw db w)
  case Nil
  then have "rd16 buf p = Some 0" using at_rd16 [of buf p 0 0] by (simp add: be16_zero_iff)
  then show ?case by (simp add: mvrp_recv_vectors.simps [of env sock buf eof src p] vectors_values_def)
next
  case (Cons v vecs)
  obtain vid evs where v: "v = (vid, evs)" by (cases v)
  let ?vb = "vector_bytes mvrp_emit_params lv (vid, evs)" and ?h = "vect_header lv (length evs)"
  let ?rest = "vectors_bytes mvrp_emit_params False vecs"
  have vb: "vectors_bytes mvrp_emit_params lv (v # vecs) = ?vb @ ?rest"
    by (simp add: v mvrp_emit_params_def)
  have at: "at buf p ?vb" "at buf (p + length ?vb) (?rest @ [0, 0])"
    using Cons.prems(2) unfolding vb append_assoc at_append by simp_all
  have ev: "evs \<noteq> []" "\<forall>e \<in> set evs. e < 6"
      "\<forall>(k, e) \<in> set (vector_values (\<lambda>v. v + 1) vid evs). k \<le> 0xFFF" and rest: "mvrp_vectors_ok vecs"
    using Cons.prems(1) v by (auto simp: mvrp_vectors_ok_def vectors_values_def)
  have "length ?vb \<le> length buf" using at(1) by (simp add: at_def)
  then have len: "length evs < 8192" using buf by (simp add: length_vector_bytes_mvrp numvectorbytes_eq)
  have h: "rd16 buf p = Some ?h" using at(1) at_rd16 unfolding vector_bytes_mvrp at_append by fastforce
  have nz: "?h \<noteq> 0" using vect_header_nonzero [of lv "length evs"] ev(1) len by simp
  have fit: "p + length ?vb < eof" "p + length ?vb + length ?rest < eof" using Cons.prems(3) unfolding vb length_append by linarith+
  obtain db1 w1 where f: "fold (mvrp_hear env sock src) (vector_values (\<lambda>v. v + 1) vid evs)
      (mvrp_hear_leaveall env sock lv (db, w)) = (db1, w1)" by (metis prod.exhaust)
  have rv: "mvrp_recv_vector env sock buf eof src p ?h saw db w = (Next (), saw \<or> lv, db1, w1)"
    using mvrp_recv_vector_hear [OF ok ev(2,1,3) len at(1) fit(1) buf(1) Cons.prems(4)] f by simp
  have next_p: "p + 4 + numvectorbytes (unat (MRPDU_VECT_NUMVALUES ?h)) = p + length ?vb"
    by (simp only: vect_header_numvalues [OF len] length_vector_bytes_mvrp)
  have IH: "mvrp_recv_vectors env sock buf eof src (p + length ?vb) (saw \<or> lv) db1 w1 =
      (Next (p + length ?vb + length ?rest), saw \<or> lv,
       fold (mvrp_hear env sock src) (vectors_values (\<lambda>v. v + 1) vecs) (db1, w1))"
    using Cons.IH [OF rest at(2) fit(2)] by simp
  show ?case
    unfolding mvrp_recv_vectors.simps [of env sock buf eof src p] h option.case rv prod.case flow.case next_p IH
    unfolding vb length_append using nz f by (simp add: vectors_values_def v)
qed

text \<open>The message list of a transmitted frame: one message and two endmarks.\<close>

lemma mvrp_recv_messages_end:
  "\<not> p + 2 < eof \<Longrightarrow> mvrp_recv_messages env sock buf eof src version p endmarks saw db w = (Next (), db, w)"
  by (simp add: mvrp_recv_messages.simps [of env sock buf eof src version p])

lemma mvrp_recv_messages_hear:
  assumes ok: "malloc_ok env" "mvrp_vectors_ok vecs" and buf: "length buf = 2000" "eof \<le> length buf"
    and at: "at buf p ([MVRP_VID_TYPE, 2] @ vectors_bytes mvrp_emit_params lv vecs @ [0, 0, 0, 0])"
    and eof: "eof = p + length (vectors_bytes mvrp_emit_params lv vecs) + 6"
  shows "mvrp_recv_messages env sock buf eof src version p 0 False db w =
    (Next (), fold (mvrp_hear env sock src) (vectors_values (\<lambda>v. v + 1) vecs)
       (mvrp_hear_leaveall env sock (lv \<and> vecs \<noteq> []) (db, w)))"
proof -
  let ?vb = "vectors_bytes mvrp_emit_params lv vecs"
  let ?q = "p + 2 + length ?vb"
  have parts: "at buf p [MVRP_VID_TYPE, 2]" "at buf (p + 2) (?vb @ [0, 0])" "at buf ?q [0, 0]"
    using at at_append [of buf p "[MVRP_VID_TYPE, 2]" "(?vb @ [0, 0]) @ [0, 0]"]
      at_append [of buf "p + 2" "?vb @ [0, 0]" "[0, 0]"] at_append [of buf "p + 2" ?vb "[0, 0]"] by simp_all
  obtain db1 w1 where f: "fold (mvrp_hear env sock src) (vectors_values (\<lambda>v. v + 1) vecs)
      (mvrp_hear_leaveall env sock (lv \<and> vecs \<noteq> []) (db, w)) = (db1, w1)" by (metis prod.exhaust)
  have v: "mvrp_recv_vectors env sock buf eof src (p + 2) False db w = (Next ?q, lv \<and> vecs \<noteq> [], db1, w1)"
    using mvrp_recv_vectors_hear [OF ok(1) buf(2) _ ok(2) parts(2), of False] buf eof f by simp
  have m: "rd_bytes buf p 2 = Some [MVRP_VID_TYPE, 2]" "rd_bytes buf ?q 2 = Some [0, 0]"
    by (rule at_rd_bytes [OF parts(1)], simp, rule at_rd_bytes [OF parts(3)], simp)
  have t: "mvrp_recv_messages env sock buf eof src version ?q 0 saw db' w' = (Next (), db', w')" for saw db' w'
    unfolding mvrp_recv_messages.simps [of env sock buf eof src version ?q]
    using m(2) eof by (simp add: mvrp_recv_messages_end)
  show ?thesis
    unfolding mvrp_recv_messages.simps [of env sock buf eof src version p] m option.case Let_def
    using v t f eof by (simp add: MVRP_VID_TYPE_def)
qed

section \<open>The transmitted frame\<close>

definition mvrp_frame :: "bytes \<Rightarrow> bool \<Rightarrow> (u16 \<times> nat list) list \<Rightarrow> bytes" where
  "mvrp_frame src lv vecs =
     mrp_frame_header MVRP_CUSTOMER_BRIDGE_ADDR src MVRP_ETYPE MVRP_PROT_VER @
     [MVRP_VID_TYPE, 2] @ vectors_bytes mvrp_emit_params lv vecs @ [0, 0, 0, 0]"

lemma length_mrp_frame_header [simp]: "length (mrp_frame_header d s e v) = 15"
  by (simp add: mrp_frame_header_def)

lemma mvrp_txpdu_frame:
  assumes "mvrp_txpdu env sock db w = (0, db', w')" "\<not> send_empty_LeaveAll_flag db"
  shows "\<exists>vecs. vecs \<noteq> [] \<and> (\<forall>(k, evs) \<in> set vecs. evs \<noteq> [] \<and> (\<forall>e \<in> set evs. e < 6)) \<and>
    values_sent mvrp_emit_params (attrib_list db) (attrib_list db') (vectors_values (\<lambda>v. v + 1) vecs) \<and>
    length (mvrp_frame (station_addr w) (lva_tx (lva (mrp_db db))) vecs) \<le> 2000 \<and>
    frames_of (trace w') = frames_of (trace w) @ [mvrp_frame (station_addr w) (lva_tx (lva (mrp_db db))) vecs]"
proof -
  let ?hd = "mrp_frame_header MVRP_CUSTOMER_BRIDGE_ADDR (station_addr w) MVRP_ETYPE MVRP_PROT_VER"
  let ?buf = "mrp_frame_buffer MVRP_CUSTOMER_BRIDGE_ADDR (station_addr w) MVRP_ETYPE MVRP_PROT_VER"
  let ?lv = "lva_tx (lva (mrp_db db))"
  obtain ok w1 where m: "malloc env MAX_FRAME_SIZE w = (ok, w1)" by (metis prod.exhaust)
  obtain buf bytes as fr n w2 where
    e: "emit_message mvrp_emit_params ?buf 15 MAX_FRAME_SIZE ?lv False (attrib_list db) = (Next (buf, bytes), as)"
    and c: "bytes \<noteq> 0" "15 + bytes + 2 < MAX_FRAME_SIZE" "wr_bytes buf (15 + bytes) [0, 0] = Some fr"
      "mrpd_send env sock (take (15 + bytes + 2) fr) w1 = (n, w2)" "w' = w2" "attrib_list db' = as"
    using assms m
    by (auto simp: mvrp_txpdu_def Let_def mvrp_emit_vidvectors_def simp del: wr_bytes.simps
        split: if_splits flow.splits prod.splits option.splits)
  obtain vecs where v: "values_sent mvrp_emit_params (attrib_list db) as (vectors_values (em_succ mvrp_emit_params) vecs)"
      "\<forall>(k, evs) \<in> set vecs. evs \<noteq> [] \<and> (\<forall>e \<in> set evs. e < 6)"
      "vecs \<noteq> [] \<Longrightarrow> wr_bytes ?buf 15 ([MVRP_VID_TYPE, 2] @ vectors_bytes mvrp_emit_params ?lv vecs @ [0, 0]) = Some buf \<and>
        bytes = length (vectors_bytes mvrp_emit_params ?lv vecs) + 4" "vecs \<noteq> []"
    using emit_message_spec [OF mvrp_emit_regular _ e] c(1) by (auto simp: mvrp_emit_params_def split: if_splits)
  let ?msg = "[MVRP_VID_TYPE, 2] @ vectors_bytes mvrp_emit_params ?lv vecs @ [0, 0]"
  have len: "length ?msg = bytes" "15 + length (?msg @ [0, 0]) < 2000"
    using v(3) [OF v(4)] c(2) by (auto simp: MAX_FRAME_SIZE_def)
  have "wr_bytes ?buf 15 (?msg @ [0, 0]) = Some fr"
    using v(3) [OF v(4)] c(3) len(1) unfolding wr_bytes_append [of ?buf 15 ?msg] by simp
  moreover have "wr_bytes ?buf 15 (?msg @ [0, 0]) = Some (take 15 ?buf @ (?msg @ [0, 0]) @ drop (15 + length (?msg @ [0, 0])) ?buf)"
    by (rule wr_bytes_Some) (use len in \<open>simp add: mrp_frame_buffer_def MAX_FRAME_SIZE_def\<close>)
  moreover have "take 15 ?buf = ?hd" by (simp add: mrp_frame_buffer_def)
  ultimately have "fr = (?hd @ ?msg @ [0, 0]) @ drop (15 + length (?msg @ [0, 0])) ?buf" by simp
  moreover have "15 + bytes + 2 = length (?hd @ ?msg @ [0, 0])" using len(1) by simp
  ultimately have "take (15 + bytes + 2) fr = ?hd @ ?msg @ [0, 0]" by (metis append_eq_conv_conj)
  then have f: "take (15 + bytes + 2) fr = mvrp_frame (station_addr w) ?lv vecs" by (simp add: mvrp_frame_def)
  have "frames_of (trace w1) = frames_of (trace w)"
    using m by (auto simp: malloc_def call_os_def)
  then have "frames_of (trace w') = frames_of (trace w) @ [mvrp_frame (station_addr w) ?lv vecs]"
    using c(4,5) f by (auto simp: mrpd_send_def call_os_def)
  moreover have "length (mvrp_frame (station_addr w) ?lv vecs) \<le> 2000" using len by (simp add: mvrp_frame_def)
  ultimately show ?thesis using v c(6) by (auto simp: mvrp_emit_params_def intro!: exI [of _ vecs])
qed

lemma mvrp_recv_frame:
  assumes "malloc_ok env" "mvrp_vectors_ok vecs" "vecs \<noteq> []" "length src = 6"
    and len: "length (mvrp_frame src lv vecs) \<le> 2000"
  shows "mvrp_recv_msg env sock (mvrp_frame src lv vecs) db w =
    (0, fold (mvrp_hear env sock src) (vectors_values (\<lambda>v. v + 1) vecs) (mvrp_hear_leaveall env sock lv (db, w)))"
proof -
  let ?f = "mvrp_frame src lv vecs"
  let ?buf = "recv_buffer ?f"
  have b: "?buf = ?f @ replicate (2000 - length ?f) 0" "recv_count ?f = length ?f"
    using len by (simp_all add: recv_buffer_def recv_count_def MAX_FRAME_SIZE_def)
  have hdr: "mrp_frame_header MVRP_CUSTOMER_BRIDGE_ADDR src MVRP_ETYPE MVRP_PROT_VER =
      MVRP_CUSTOMER_BRIDGE_ADDR @ src @ [hi8 MVRP_ETYPE, lo8 MVRP_ETYPE, MVRP_PROT_VER]"
    using assms(4) by (simp add: mrp_frame_header_def MVRP_CUSTOMER_BRIDGE_ADDR_def)
  have h: "take 6 ?buf = MVRP_CUSTOMER_BRIDGE_ADDR" "take 6 (drop 6 ?buf) = src"
      "be16 (?buf ! 12) (?buf ! 13) = MVRP_ETYPE"
    using assms(4) unfolding b(1) unfolding mvrp_frame_def hdr
    by (simp_all add: MVRP_CUSTOMER_BRIDGE_ADDR_def nth_append)
  have at: "at ?buf 15 ([MVRP_VID_TYPE, 2] @ vectors_bytes mvrp_emit_params lv vecs @ [0, 0, 0, 0])"
    unfolding b(1) unfolding mvrp_frame_def by (auto simp: at_def nth_append nth_Cons')
  have n: "length ?f = 15 + length (vectors_bytes mvrp_emit_params lv vecs) + 6" by (simp add: mvrp_frame_def)
  have lb: "length ?buf = 2000" by (simp add: MAX_FRAME_SIZE_def)
  have "mvrp_recv_messages env sock ?buf (length ?f) src (?buf ! 14) 15 0 False db w =
      (Next (), fold (mvrp_hear env sock src) (vectors_values (\<lambda>v. v + 1) vecs)
        (mvrp_hear_leaveall env sock (lv \<and> vecs \<noteq> []) (db, w)))"
    by (rule mvrp_recv_messages_hear [OF assms(1,2) lb _ at n]) (use lb len in simp)
  then show ?thesis
    using assms(3) n by (simp add: mvrp_recv_msg_def Let_def b(2) h split: prod.splits)
qed

lemma values_sent_keys:
  "values_sent es as as' vals \<Longrightarrow> (k, e) \<in> set vals \<Longrightarrow> \<exists>a \<in> set as. attribute a = k"
  unfolding values_sent_def by (auto simp: value_event_def elim!: list_emb_set)

end
