(* ===== verification/Mvrp_Register.thy ===== *)
theory Mvrp_Register
  imports Mvrp_Wire
begin

text \<open>
  What reception does to the registrations, and the composition of two participants: the
  declarations one of them transmits become registrations of the other.
\<close>

section \<open>Registrations and the steps of the event handler\<close>


lemma in_set_Cons:
  "in_set (a # as) = (if reg_state (registrar a) = MRP_IN_STATE then insert (attribute a) (in_set as) else in_set as)"
  by (auto simp: in_set_def)

lemma in_set_notify: "in_set (fst (attribs_notify send as w)) = in_set as"
  by (induction as arbitrary: w) (simp_all add: in_set_Cons Let_def case_prod_unfold)

lemma in_set_mvrp_notify: "in_set (attrib_list (fst (mvrp_notify env db w))) = in_set (attrib_list db)"
  using in_set_notify [of "\<lambda>a n w. snd (mvrp_send_notifications env (clients (mrp_db db)) a n w)" "attrib_list db" w]
  by (simp add: mvrp_notify_def case_prod_unfold Let_def)












section \<open>The leave timer\<close>

lemma attrib_registrar_LVTIMER_reg:
  "reg_state (registrar (fst (attrib_registrar env MRP_EVENT_LVTIMER a db w))) =
     (if reg_state (registrar a) = MRP_LV_STATE then MRP_MT_STATE else reg_state (registrar a))"
  "attribute (fst (attrib_registrar env MRP_EVENT_LVTIMER a db w)) = attribute a"
  using mrp_registrar_fsm_reg [of env "registrar a" db MRP_EVENT_LVTIMER w]
  by (auto simp: attrib_registrar_def case_prod_unfold)

lemma mvrp_lvtimer_loop_registrars:
  "(\<forall>a \<in> set (fst (mvrp_lvtimer_loop env as db w)). reg_state (registrar a) \<noteq> MRP_LV_STATE \<and> \<not> reclaimable a) \<and>
   in_set (fst (mvrp_lvtimer_loop env as db w)) = in_set as"
proof (induction as arbitrary: db w)
  case (Cons a as)
  obtain a1 db1 w1 where r: "attrib_registrar env MRP_EVENT_LVTIMER a db w = (a1, db1, w1)" by (metis prod_cases3)
  obtain freed w2 where c: "mvrp_conditional_reclaim env (clients db1) a1 w1 = (freed, w2)" by (metis prod.exhaust)
  have a1: "reg_state (registrar a1) = (if reg_state (registrar a) = MRP_LV_STATE then MRP_MT_STATE else reg_state (registrar a))"
      "attribute a1 = attribute a"
    using attrib_registrar_LVTIMER_reg [of env a db w] r by simp_all
  have f: "freed = reclaimable a1" using c by (auto simp: mvrp_conditional_reclaim_def split: if_splits)
  show ?case
    using Cons.IH [of db1 w2] r c a1 f by (auto simp: case_prod_unfold Let_def in_set_Cons reclaimable_def)
qed simp

lemma attribs_notify_fields:
  "map (\<lambda>a. (reg_state (registrar a), applicant a)) (fst (attribs_notify send as w)) =
   map (\<lambda>a. (reg_state (registrar a), applicant a)) as"
  by (induction as arbitrary: w) (auto simp: Let_def case_prod_unfold)

lemma attribs_notify_members:
  assumes "a' \<in> set (fst (attribs_notify send as w))"
  shows "\<exists>a \<in> set as. reg_state (registrar a') = reg_state (registrar a) \<and> applicant a' = applicant a"
proof -
  have "(reg_state (registrar a'), applicant a') \<in> set (map (\<lambda>a. (reg_state (registrar a), applicant a)) (fst (attribs_notify send as w)))"
    using assms by simp
  then show ?thesis unfolding attribs_notify_fields by auto
qed

text \<open>
  C14: The leave timer finishes every withdrawal. When it expires, no VID is left in the leaving
  state, the VIDs registered and not leaving stay registered, and no attribute that is neither
  declared nor registered keeps its record.
\<close>

theorem mvrp_leave_timer_expires:
  "case mvrp_event env sock MRP_EVENT_LVTIMER None db w of
     (_, db', _) \<Rightarrow> in_set (attrib_list db') = in_set (attrib_list db) \<and>
       {a \<in> set (attrib_list db'). reg_state (registrar a) = MRP_LV_STATE \<or> reclaimable a} = {}"
proof -
  obtain rc d1 w1 where t: "mrp_lvtimer_stop env (mrp_db db) w = (rc, d1, w1)" by (metis prod_cases3)
  obtain as d2 w2 where l: "mvrp_lvtimer_loop env (attrib_list db) d1 w1 = (as, d2, w2)" by (metis prod_cases3)
  let ?db2 = "db\<lparr>mrp_db := d2, attrib_list := as\<rparr>"
  let ?send = "\<lambda>a n w. snd (mvrp_send_notifications env (clients d2) a n w)"
  have e: "mvrp_event env sock MRP_EVENT_LVTIMER None db w = (0, mvrp_notify env ?db2 w2)"
    using t l by (simp add: mvrp_event_def attrib_events_def mvrp_event_LVTIMER_def case_prod_unfold Let_def)
  have L: "\<forall>a \<in> set as. reg_state (registrar a) \<noteq> MRP_LV_STATE \<and> \<not> reclaimable a" "in_set as = in_set (attrib_list db)"
    using mvrp_lvtimer_loop_registrars [of env "attrib_list db" d1 w1] l by simp_all
  have "attrib_list (fst (mvrp_notify env ?db2 w2)) = fst (attribs_notify ?send as w2)"
    by (simp add: mvrp_notify_def case_prod_unfold Let_def)
  then have "reg_state (registrar a) \<noteq> MRP_LV_STATE \<and> \<not> reclaimable a"
    if "a \<in> set (attrib_list (fst (mvrp_notify env ?db2 w2)))" for a
    using L(1) attribs_notify_members [of a ?send as w2] that by (auto simp: reclaimable_def)
  moreover have "in_set (attrib_list (fst (mvrp_notify env ?db2 w2))) = in_set (attrib_list db)"
    using L(2) by (simp add: in_set_mvrp_notify)
  ultimately show ?thesis using e by (auto split: prod.splits)
qed

section \<open>Two participants\<close>





section \<open>An example\<close>









end
