(* ===== verification/Mmrp.thy ===== *)
theory Mmrp
  imports Mrp_Handler Parse "HOL-Library.List_Lexorder"
begin

text \<open>
  The Multiple MAC Registration Protocol (\<^verbatim>\<open>daemons/mrpd/mmrp.c\<close>): two types of attributes,
  service requirements and MAC addresses, in one list; event handler, transmission and
  reception of frames, notifications and commands of local clients, garbage collection.
\<close>

definition MMRP_ETYPE :: u16 where "MMRP_ETYPE = 0x88F6"
definition MMRP_ADDR :: bytes where "MMRP_ADDR = [0x01, 0x80, 0xC2, 0x00, 0x00, 0x20]"
definition MMRP_PROT_VER :: byte where "MMRP_PROT_VER = 0"
definition MMRP_SVCREQ_TYPE :: byte where "MMRP_SVCREQ_TYPE = 1"
definition MMRP_MACVEC_TYPE :: byte where "MMRP_MACVEC_TYPE = 2"

text \<open>The field \<^verbatim>\<open>type\<close> with the union \<^verbatim>\<open>attribute\<close>; a MAC address has six bytes.\<close>

datatype mmrp_value = SVCREQ byte | MACVEC bytes

fun mmrp_type :: "mmrp_value \<Rightarrow> byte" where
  "mmrp_type (SVCREQ v) = MMRP_SVCREQ_TYPE"
| "mmrp_type (MACVEC m) = MMRP_MACVEC_TYPE"

type_synonym mmrp_attribute = "mmrp_value mrp_attribute"
type_synonym mmrp_database = "mmrp_value mrp_app"

section \<open>The attribute list\<close>

definition mmrp_lookup :: "mmrp_attribute list \<Rightarrow> mmrp_attribute \<Rightarrow> nat option" where
  "mmrp_lookup as rattrib = find_pos (\<lambda>a. attribute a = attribute rattrib) as"

text \<open>Comparison within a type: numbers, or \<^verbatim>\<open>memcmp\<close> of the addresses.\<close>

fun mmrp_less :: "mmrp_value \<Rightarrow> mmrp_value \<Rightarrow> bool" where
  "mmrp_less (SVCREQ v) (SVCREQ v') = (v < v')"
| "mmrp_less (MACVEC m) (MACVEC m') = (m < m')"
| "mmrp_less _ _ = False"

text \<open>
  The position the new attribute is linked at: before the first attribute of its type that is
  not smaller, behind the last one of its type, or at the end of the list.
\<close>

fun mmrp_add :: "mmrp_attribute list \<Rightarrow> mmrp_attribute \<Rightarrow> nat \<times> mmrp_attribute list" where
  "mmrp_add [] rattrib = (0, [rattrib])"
| "mmrp_add (a # as) rattrib =
     (if mmrp_type (attribute rattrib) = mmrp_type (attribute a)
      then if mmrp_less (attribute a) (attribute rattrib)
           then if as \<noteq> [] \<and> mmrp_type (attribute (hd as)) = mmrp_type (attribute a)
                then let (i, as') = mmrp_add as rattrib in (Suc i, a # as')
                else (1, a # rattrib # as)
           else (0, rattrib # a # as)
      else let (i, as') = mmrp_add as rattrib in (Suc i, a # as'))"

definition mmrp_merge :: "mmrp_attribute \<Rightarrow> mmrp_attribute \<Rightarrow> mmrp_attribute" where
  "mmrp_merge rattrib attrib =
     attrib\<lparr>registrar := (registrar attrib)\<lparr>reg_macaddr := reg_macaddr (registrar rattrib)\<rparr>\<rparr>"

text \<open>The node is zeroed; each caller sets the type and the value.\<close>

definition mmrp_alloc :: "os \<Rightarrow> world \<Rightarrow> mmrp_attribute option \<times> world" where
  "mmrp_alloc env w =
     (let (ok, w') = malloc env 72 w
      in (if ok then Some (fresh_attribute (SVCREQ 0)) else None, w'))"

text \<open>The loop runs from byte 5 down to byte 1.\<close>

fun increment_from :: "nat \<Rightarrow> bytes \<Rightarrow> bytes" where
  "increment_from 0 macaddr = macaddr"
| "increment_from (Suc i) macaddr =
     (if macaddr ! Suc i \<noteq> 255 then macaddr[Suc i := macaddr ! Suc i + 1]
      else increment_from i (macaddr[Suc i := 0]))"

definition mmrp_increment_macaddr :: "bytes \<Rightarrow> bytes" where
  "mmrp_increment_macaddr macaddr = increment_from 5 macaddr"

text \<open>The value a vector continues with.\<close>

fun mmrp_succ :: "mmrp_value \<Rightarrow> mmrp_value" where
  "mmrp_succ (SVCREQ v) = SVCREQ (v + 1)"
| "mmrp_succ (MACVEC m) = MACVEC (mmrp_increment_macaddr m)"

section \<open>Notifications\<close>

fun mmrp_variant :: "mmrp_value \<Rightarrow> string" where
  "mmrp_variant (SVCREQ v) = snprintf BUFSIZE (''S='' @ fmt_u (unat v))"
| "mmrp_variant (MACVEC m) = snprintf BUFSIZE (''M='' @ fmt_hex_bytes m)"

definition mmrp_notify_text :: "mmrp_attribute \<Rightarrow> string \<Rightarrow> string" where
  "mmrp_notify_text attrib cmd =
     (let regsrc = snprintf BUFSIZE (''R='' @ fmt_hex_bytes (reg_macaddr (registrar attrib)));
          mrp_state = mrp_decode_state (registrar attrib) (applicant attrib) 8
      in snprintf (MAX_MRPD_CMDSZ - 1)
           (cmd @ '' '' @ mmrp_variant (attribute attrib) @ '' '' @ regsrc @ '' '' @ mrp_state @ newline))"

definition mmrp_send_notifications ::
  "os \<Rightarrow> sockaddr_in list \<Rightarrow> mmrp_attribute \<Rightarrow> mrp_notify \<Rightarrow> world \<Rightarrow> int \<times> world" where
  "mmrp_send_notifications env cs attrib notify w =
     (case alloc_notify_bufs env w of
        (None, w1) \<Rightarrow> (-1, w1)
      | (Some ok, w1) \<Rightarrow>
          (0, if \<not> ok then w1
              else case notify of
                     MRP_NOTIFY_NEW \<Rightarrow> send_to_clients env cs (mmrp_notify_text attrib ''MNE'') w1
                   | MRP_NOTIFY_JOIN \<Rightarrow> send_to_clients env cs (mmrp_notify_text attrib ''MJO'') w1
                   | MRP_NOTIFY_LV \<Rightarrow> send_to_clients env cs (mmrp_notify_text attrib ''MLE'') w1
                   | MRP_NOTIFY_NONE \<Rightarrow> w1))"


section \<open>Transmission\<close>

text \<open>
  The service vectors place their events at index 2 although the FirstValue has one byte, and
  start with only the first of the three packed events set: \<open>pad\<close> gives what the other two
  places hold.
\<close>

definition mmrp_svc_params :: "(mmrp_value \<Rightarrow> nat \<times> nat) \<Rightarrow> mmrp_value emit_params" where
  "mmrp_svc_params pad =
     \<lparr>em_match = (\<lambda>v. mmrp_type v = MMRP_SVCREQ_TYPE), em_type = MMRP_SVCREQ_TYPE, em_length = 1,
      em_data = 2, em_vector_size = 6, em_first = (\<lambda>v. case v of SVCREQ s \<Rightarrow> [s] | MACVEC m \<Rightarrow> []),
      em_vectidx = 2, em_succ = mmrp_succ, em_same = (=), em_slack = 2, em_pad = pad,
      em_join_first = False, em_keep_lva = False\<rparr>"

definition mmrp_mac_params :: "mmrp_value emit_params" where
  "mmrp_mac_params =
     \<lparr>em_match = (\<lambda>v. mmrp_type v = MMRP_MACVEC_TYPE), em_type = MMRP_MACVEC_TYPE, em_length = 6,
      em_data = 2, em_vector_size = 11,
      em_first = (\<lambda>v. case v of SVCREQ s \<Rightarrow> [] | MACVEC m \<Rightarrow> take 6 (m @ replicate 6 0)),
      em_vectidx = 6, em_succ = mmrp_succ, em_same = (=), em_slack = 11, em_pad = (\<lambda>_. (0, 0)),
      em_join_first = True, em_keep_lva = True\<rparr>"

definition mmrp_emit_svcvectors ::
  "(mmrp_value \<Rightarrow> nat \<times> nat) \<Rightarrow> bytes \<Rightarrow> nat \<Rightarrow> nat \<Rightarrow> bool \<Rightarrow> bool \<Rightarrow> mmrp_attribute list \<Rightarrow>
     (bytes \<times> nat) flow \<times> mmrp_attribute list" where
  "mmrp_emit_svcvectors pad msgbuf wrptr eof lv_all send_empty as =
     emit_message (mmrp_svc_params pad) msgbuf wrptr eof lv_all send_empty as"

definition mmrp_emit_macvectors ::
  "bytes \<Rightarrow> nat \<Rightarrow> nat \<Rightarrow> bool \<Rightarrow> mmrp_attribute list \<Rightarrow> (bytes \<times> nat) flow \<times> mmrp_attribute list" where
  "mmrp_emit_macvectors msgbuf wrptr eof lv_all as =
     emit_message mmrp_mac_params msgbuf wrptr eof lv_all False as"

text \<open>The uninitialised places of \<^verbatim>\<open>vectevt\<close>, for each service a vector may start with.\<close>

definition mmrp_vectevt_pad :: "os \<Rightarrow> world \<Rightarrow> mmrp_value \<Rightarrow> nat \<times> nat" where
  "mmrp_vectevt_pad env w v =
     (case v of
        SVCREQ s \<Rightarrow> (nat (env (Uninit (2 * unat s) # trace w)), nat (env (Uninit (2 * unat s + 1) # trace w)))
      | MACVEC m \<Rightarrow> (0, 0))"

definition mmrp_txpdu ::
  "os \<Rightarrow> int \<Rightarrow> mmrp_database \<Rightarrow> world \<Rightarrow> int \<times> mmrp_database \<times> world" where
  "mmrp_txpdu env sock db w =
     (let (ok, w1) = malloc env MAX_FRAME_SIZE w
      in if \<not> ok then (-1, db, w1)
         else
           let msgbuf = mrp_frame_buffer MMRP_ADDR (station_addr w) MMRP_ETYPE MMRP_PROT_VER;
               lv_all = lva_tx (lva (mrp_db db));
               db1 = db\<lparr>mrp_db := lva_consume (mrp_db db)\<rparr>
           in case mmrp_emit_macvectors msgbuf 15 MAX_FRAME_SIZE lv_all (attrib_list db) of
                (Goto, as) \<Rightarrow> (-1, db1\<lparr>attrib_list := as\<rparr>, w1)
              | (Fault, as) \<Rightarrow> (-1, db1\<lparr>attrib_list := as\<rparr>, crash w1)
              | (Next (buf, bytes), as) \<Rightarrow>
                  let p = 15 + bytes
                  in if MAX_FRAME_SIZE \<le> p + 2 then (-1, db1\<lparr>attrib_list := as\<rparr>, w1)
                     else case mmrp_emit_svcvectors (mmrp_vectevt_pad env w1) buf p MAX_FRAME_SIZE lv_all
                                 (send_empty_LeaveAll_flag db) as of
                (Goto, as') \<Rightarrow> (-1, db1\<lparr>attrib_list := as'\<rparr>, w1)
              | (Fault, as') \<Rightarrow> (-1, db1\<lparr>attrib_list := as'\<rparr>, crash w1)
              | (Next (buf', bytes'), as') \<Rightarrow>
                  let db2 = db1\<lparr>attrib_list := as'\<rparr>; q = p + bytes'
                  in if q = 15 then (0, db2, w1)
                     else if \<not> q + 2 < MAX_FRAME_SIZE then (-1, db2, w1)
                     else case wr_bytes buf' q [0, 0] of
                            None \<Rightarrow> (-1, db2, crash w1)
                          | Some frame \<Rightarrow>
                              let (n, w2) = mrpd_send env sock (take (q + 2) frame) w1
                              in (if n \<le> 0 then -1 else 0, db2, w2))"

section \<open>The event handler\<close>

text \<open>The leave timer: each registrar in turn; no attribute is freed here.\<close>

fun mmrp_lvtimer_loop ::
  "os \<Rightarrow> mmrp_attribute list \<Rightarrow> mrp_database \<Rightarrow> world \<Rightarrow> mmrp_attribute list \<times> mrp_database \<times> world" where
  "mmrp_lvtimer_loop env [] db w = ([], db, w)"
| "mmrp_lvtimer_loop env (a # as) db w =
     (let (a1, db1, w1) = attrib_registrar env MRP_EVENT_LVTIMER a db w;
          (as', db2, w2) = mmrp_lvtimer_loop env as db1 w1
      in (a1 # as', db2, w2))"

text \<open>The switch of \<^verbatim>\<open>mmrp_event\<close>, one case each.\<close>

definition mmrp_event_LVATIMER :: "os \<Rightarrow> int \<Rightarrow> mmrp_database \<Rightarrow> world \<Rightarrow> mmrp_database \<times> world" where
  "mmrp_event_LVATIMER env sock db w =
     (let (_, d1, w1) = mrp_lvatimer_stop env (mrp_db db) w;
          (_, d2, w2) = mrp_jointimer_stop env d1 w1;
          (as, d3, w3) = attribs_leaveall env MRP_EVENT_TXLA (\<lambda>_. True) (attrib_list db) d2 w2;
          (_, d4, w4) = mrp_lvatimer_fsm env d3 MRP_EVENT_LVATIMER w3;
          (_, d5, w5) = mrp_lvatimer_fsm env d4 MRP_EVENT_TX w4;
          (_, db6, w6) = mmrp_txpdu env sock
             (db\<lparr>mrp_db := d5, attrib_list := as, send_empty_LeaveAll_flag := True\<rparr>) w5
      in (db6\<lparr>send_empty_LeaveAll_flag := False\<rparr>, w6))"

definition mmrp_event_RLA :: "os \<Rightarrow> byte \<Rightarrow> mmrp_database \<Rightarrow> world \<Rightarrow> mmrp_database \<times> world" where
  "mmrp_event_RLA env t db w =
     (let (as, d2, w2) = attribs_leaveall env MRP_EVENT_RLA (\<lambda>v. mmrp_type v = t) (attrib_list db) (mrp_db db) w;
          (_, d3, w3) = mrp_lvatimer_fsm env d2 MRP_EVENT_RLA w2
      in (db\<lparr>mrp_db := d3, attrib_list := as\<rparr>, w3))"

definition mmrp_event_TX :: "os \<Rightarrow> int \<Rightarrow> mmrp_database \<Rightarrow> world \<Rightarrow> mmrp_database \<times> world" where
  "mmrp_event_TX env sock db w =
     (let (_, d1, w1) = mrp_jointimer_stop env (mrp_db db) w;
          as = attribs_applicant (p2pmac w1) MRP_EVENT_TX (attrib_list db);
          (_, db2, w2) = mmrp_txpdu env sock (db\<lparr>mrp_db := d1, attrib_list := as\<rparr>) w1
      in if tx_count as \<noteq> 0
         then let (_, d3, w3) = mrp_jointimer_start env (mrp_db db2) w2 in (db2\<lparr>mrp_db := d3\<rparr>, w3)
         else (db2, w2))"

definition mmrp_event_LVTIMER :: "os \<Rightarrow> mmrp_database \<Rightarrow> world \<Rightarrow> mmrp_database \<times> world" where
  "mmrp_event_LVTIMER env db w =
     (let (_, d1, w1) = mrp_lvtimer_stop env (mrp_db db) w;
          (as, d2, w2) = mmrp_lvtimer_loop env (attrib_list db) d1 w1
      in (db\<lparr>mrp_db := d2, attrib_list := as\<rparr>, w2))"

definition mmrp_event_PERIODIC :: "os \<Rightarrow> mmrp_database \<Rightarrow> world \<Rightarrow> mmrp_database \<times> world" where
  "mmrp_event_PERIODIC env db w =
     (let (_, d1, w1) = (if attrib_list db \<noteq> [] then mrp_jointimer_start env (mrp_db db) w
                         else (0, mrp_db db, w))
      in (db\<lparr>mrp_db := d1,
             attrib_list := attribs_applicant (p2pmac w1) MRP_EVENT_PERIODIC (attrib_list db)\<rparr>, w1))"

definition mmrp_event_attrib ::
  "os \<Rightarrow> mrp_event \<Rightarrow> mmrp_attribute \<Rightarrow> mmrp_database \<Rightarrow> world \<Rightarrow> mmrp_database \<times> world" where
  "mmrp_event_attrib env event rattrib db w =
     (let (i, as, d1, w1) =
            attribs_event mmrp_lookup mmrp_add mmrp_merge env event rattrib (attrib_list db) (mrp_db db) w
      in (db\<lparr>mrp_db := d1, attrib_list := as\<rparr>, w1))"


text \<open>The loop after the switch: pending notifications are sent to the clients.\<close>

definition mmrp_notify :: "os \<Rightarrow> mmrp_database \<Rightarrow> world \<Rightarrow> mmrp_database \<times> world" where
  "mmrp_notify env db w =
     (let (as, w') = attribs_notify (\<lambda>a n w. snd (mmrp_send_notifications env (clients (mrp_db db)) a n w))
                       (attrib_list db) w
      in (db\<lparr>attrib_list := as\<rparr>, w'))"

text \<open>A received LeaveAll and the events of one attribute need \<open>rattrib\<close>.\<close>

definition mmrp_event ::
  "os \<Rightarrow> int \<Rightarrow> mrp_event \<Rightarrow> mmrp_attribute option \<Rightarrow> mmrp_database \<Rightarrow> world \<Rightarrow>
     int \<times> mmrp_database \<times> world" where
  "mmrp_event env sock event rattrib db w =
     (if event \<in> insert MRP_EVENT_RLA attrib_events
      then let (_, d1, w1) = mrp_jointimer_start env (mrp_db db) w;
               db1 = db\<lparr>mrp_db := d1\<rparr>
           in case rattrib of
                None \<Rightarrow> (-1, db1, w1)
              | Some r \<Rightarrow>
                  let (db2, w2) = (if event = MRP_EVENT_RLA
                                   then mmrp_event_RLA env (mmrp_type (attribute r)) db1 w1
                                   else mmrp_event_attrib env event r db1 w1);
                      (db3, w3) = mmrp_notify env db2 w2
                  in (0, db3, w3)
      else let (db2, w2) =
                 (case event of
                    MRP_EVENT_LVATIMER \<Rightarrow> mmrp_event_LVATIMER env sock db w
                  | MRP_EVENT_TX \<Rightarrow> mmrp_event_TX env sock db w
                  | MRP_EVENT_LVTIMER \<Rightarrow> mmrp_event_LVTIMER env db w
                  | MRP_EVENT_PERIODIC \<Rightarrow> mmrp_event_PERIODIC env db w
                  | _ \<Rightarrow> (db, w));
               (db3, w3) = mmrp_notify env db2 w2
           in (0, db3, w3))"

section \<open>Reception\<close>

text \<open>
  The code for the two attribute types has the same structure; \<open>t\<close> is the type. The state while
  a vector is read: the value of the next event, the database and the world.
\<close>

definition mmrp_recv_evt ::
  "os \<Rightarrow> int \<Rightarrow> bytes \<Rightarrow> nat \<Rightarrow> mmrp_value \<times> mmrp_database \<times> world \<Rightarrow>
     unit flow \<times> mmrp_value \<times> mmrp_database \<times> world" where
  "mmrp_recv_evt env sock src e s =
     (case s of (firstval, db, w) \<Rightarrow>
        if (case firstval of SVCREQ v \<Rightarrow> 1 < v | MACVEC m \<Rightarrow> False) then (Next (), firstval, db, w)
        else case mmrp_alloc env w of
               (None, w1) \<Rightarrow> (Goto, firstval, db, w1)
             | (Some a, w1) \<Rightarrow>
                 let a = a\<lparr>attribute := firstval, registrar := (registrar a)\<lparr>reg_macaddr := src\<rparr>\<rparr>
                 in case mrpdu_event e of
                      None \<Rightarrow> (Next (), mmrp_succ firstval, db, w1)
                    | Some event \<Rightarrow>
                        let (_, db', w') = mmrp_event env sock event (Some a) db w1
                        in (Next (), mmrp_succ firstval, db', w'))"

text \<open>The length of a FirstValue, and the value itself.\<close>

definition mmrp_firstlen :: "byte \<Rightarrow> nat" where
  "mmrp_firstlen t = (if t = MMRP_SVCREQ_TYPE then 1 else 6)"

definition mmrp_recv_first :: "byte \<Rightarrow> bytes \<Rightarrow> nat \<Rightarrow> mmrp_value option" where
  "mmrp_recv_first t buf p =
     (if t = MMRP_SVCREQ_TYPE then map_option SVCREQ (rd buf p) else map_option MACVEC (rd_bytes buf p 6))"

text \<open>The LeaveAll event of a vector header, for an attribute that carries only the type.\<close>

definition mmrp_recv_leaveall ::
  "os \<Rightarrow> int \<Rightarrow> byte \<Rightarrow> mmrp_database \<Rightarrow> world \<Rightarrow> bool \<times> mmrp_database \<times> world" where
  "mmrp_recv_leaveall env sock t db w =
     (case mmrp_alloc env w of
        (None, w1) \<Rightarrow> (False, db, w1)
      | (Some a, w1) \<Rightarrow>
          let (_, db', w') = mmrp_event env sock MRP_EVENT_RLA
                (Some (a\<lparr>attribute := if t = MMRP_SVCREQ_TYPE then SVCREQ 0 else MACVEC (replicate 6 0)\<rparr>)) db w1
          in (True, db', w'))"

text \<open>
  One vector at offset \<open>p\<close> with header \<open>h\<close>. Only the first LeaveAll of the service vectors
  counts, but every one of the MAC vectors.
\<close>

definition mmrp_recv_vector ::
  "os \<Rightarrow> int \<Rightarrow> bytes \<Rightarrow> nat \<Rightarrow> bytes \<Rightarrow> byte \<Rightarrow> nat \<Rightarrow> u16 \<Rightarrow> bool \<Rightarrow> mmrp_database \<Rightarrow> world \<Rightarrow>
     unit flow \<times> bool \<times> mmrp_database \<times> world" where
  "mmrp_recv_vector env sock buf eof src t p h saw_lva db w =
     (let numvalues = unat (MRPDU_VECT_NUMVALUES h);
          rla = (MRPDU_VECT_LVA h \<and> (t = MMRP_SVCREQ_TYPE \<longrightarrow> \<not> saw_lva));
          saw = (saw_lva \<or> rla \<and> t = MMRP_SVCREQ_TYPE);
          (ok, db1, w1) = (if rla then mmrp_recv_leaveall env sock t db w else (True, db, w))
      in if \<not> ok then (Goto, saw, db1, w1)
         else if numvalues = 0 then (Goto, saw, db1, w1)
         else if eof \<le> p + 2 + numvalues div 3 then (Goto, saw, db1, w1)
         else case mmrp_recv_first t buf (p + 2) of
                None \<Rightarrow> (Fault, saw, db1, w1)
              | Some v \<Rightarrow>
                  (case recv_vector (mmrp_recv_evt env sock src) buf (p + 2 + mmrp_firstlen t)
                          (Suc (numvectorbytes numvalues)) numvalues (v, db1, w1) of
                     (r, _, db2, w2) \<Rightarrow> (r, saw, db2, w2)))"

text \<open>The vectors of one message, from offset \<open>p\<close> to the endmark, whose offset is returned.\<close>

function mmrp_recv_vectors ::
  "os \<Rightarrow> int \<Rightarrow> bytes \<Rightarrow> nat \<Rightarrow> bytes \<Rightarrow> byte \<Rightarrow> nat \<Rightarrow> bool \<Rightarrow> mmrp_database \<Rightarrow> world \<Rightarrow>
     nat flow \<times> bool \<times> mmrp_database \<times> world" where
  "mmrp_recv_vectors env sock buf eof src t p saw db w =
     (case rd16 buf p of
        None \<Rightarrow> (Fault, saw, db, w)
      | Some h \<Rightarrow>
          if h = 0 then (Next p, saw, db, w)
          else (case mmrp_recv_vector env sock buf eof src t p h saw db w of
                  (Goto, s) \<Rightarrow> (Goto, s)
                | (Fault, s) \<Rightarrow> (Fault, s)
                | (Next _, saw', db', w') \<Rightarrow>
                    mmrp_recv_vectors env sock buf eof src t
                      (p + 2 + mmrp_firstlen t + numvectorbytes (unat (MRPDU_VECT_NUMVALUES h))) saw' db' w'))"
  by pat_completeness auto
termination
  by (relation "measure (\<lambda>(env, sock, buf, eof, src, t, p, _). length buf - p)") (auto simp: rd16_Some_iff)

declare mmrp_recv_vectors.simps [simp del]

lemma mmrp_recv_vectors_advances:
  "fst (mmrp_recv_vectors env sock buf eof src t p saw db w) = Next q \<Longrightarrow> p \<le> q"
proof (induction env sock buf eof src t p saw db w rule: mmrp_recv_vectors.induct)
  case (1 env sock buf eof src t p saw db w)
  show ?case
  proof (cases "rd16 buf p")
    case None
    then show ?thesis using "1.prems" by (simp add: mmrp_recv_vectors.simps [of env sock buf eof src t p])
  next
    case (Some h)
    obtain r saw' db' w' where v: "mmrp_recv_vector env sock buf eof src t p h saw db w = (r, saw', db', w')"
      by (metis prod_cases4)
    show ?thesis
      using "1.prems" Some v "1.IH" [OF Some _ v [symmetric]]
      by (cases r) (fastforce simp: mmrp_recv_vectors.simps [of env sock buf eof src t p] split: if_splits)+
  qed
qed

lemma mmrp_recv_vectors_advances':
  "(Next q, s) = mmrp_recv_vectors env sock buf eof src t p saw db w \<Longrightarrow> p \<le> q"
  by (metis mmrp_recv_vectors_advances fst_conv)

text \<open>The message list, until the end of the frame or two endmarks.\<close>

function mmrp_recv_messages ::
  "os \<Rightarrow> int \<Rightarrow> bytes \<Rightarrow> nat \<Rightarrow> bytes \<Rightarrow> nat \<Rightarrow> nat \<Rightarrow> bool \<Rightarrow> mmrp_database \<Rightarrow> world \<Rightarrow>
     unit flow \<times> mmrp_database \<times> world" where
  "mmrp_recv_messages env sock buf eof src p endmarks saw db w =
     (if \<not> p + 2 < eof then (Next (), db, w)
      else case rd_bytes buf p 2 of
             None \<Rightarrow> (Fault, db, w)
           | Some msg \<Rightarrow>
               let AttributeType = msg ! 0; AttributeLength = msg ! 1
               in if AttributeType = 0 \<and> AttributeLength = 0
                  then if endmarks + 1 < 2
                       then mmrp_recv_messages env sock buf eof src (p + 2) (endmarks + 1) saw db w
                       else (Next (), db, w)
                  else if AttributeType = MMRP_SVCREQ_TYPE \<or> AttributeType = MMRP_MACVEC_TYPE
                  then if unat AttributeLength \<noteq> mmrp_firstlen AttributeType then (Goto, db, w)
                       else (case mmrp_recv_vectors env sock buf eof src AttributeType (p + 2) saw db w of
                               (Goto, _, db', w') \<Rightarrow> (Goto, db', w')
                             | (Fault, _, db', w') \<Rightarrow> (Fault, db', w')
                             | (Next q, saw', db', w') \<Rightarrow>
                                 mmrp_recv_messages env sock buf eof src q 0 saw' db' w')
                  else (Goto, db, w))"
  by pat_completeness auto
termination
proof (relation "measure (\<lambda>(env, sock, buf, eof, src, p, _). eof - p)", goal_cases)
  case 1
  show ?case by simp
next
  case 2
  then show ?case by simp
next
  case 3
  then show ?case by (auto dest!: mmrp_recv_vectors_advances')
qed

declare mmrp_recv_messages.simps [simp del]

definition mmrp_recv_msg ::
  "os \<Rightarrow> int \<Rightarrow> bytes \<Rightarrow> mmrp_database \<Rightarrow> world \<Rightarrow> int \<times> mmrp_database \<times> world" where
  "mmrp_recv_msg env sock frame db w =
     (let msgbuf = recv_buffer frame; bytes = recv_count frame
      in if bytes < 17 then (-1, db, w)
         else if be16 (msgbuf ! 12) (msgbuf ! 13) \<noteq> MMRP_ETYPE then (-1, db, w)
         else if take 6 msgbuf \<noteq> MMRP_ADDR then (-1, db, w)
         else case mmrp_recv_messages env sock msgbuf bytes (take 6 (drop 6 msgbuf)) 15 0 False db w of
                (Next _, db', w') \<Rightarrow> (0, db', w')
              | (Goto, db', w') \<Rightarrow> (-1, db', w')
              | (Fault, db', w') \<Rightarrow> (-1, db', crash w'))"


section \<open>Commands of local clients\<close>

fun mmrp_dump_state :: "registrar_state \<Rightarrow> string" where
  "mmrp_dump_state MRP_IN_STATE = ''MIN ''"
| "mmrp_dump_state MRP_LV_STATE = ''MLV ''"
| "mmrp_dump_state MRP_MT_STATE = ''MMT ''"

definition mmrp_dump_line :: "mmrp_attribute \<Rightarrow> string" where
  "mmrp_dump_line attrib =
     (let regsrc = snprintf BUFSIZE (''R='' @ fmt_hex_bytes (reg_macaddr (registrar attrib)))
      in snprintf BUFSIZE (mmrp_dump_state (reg_state (registrar attrib)) @
           mmrp_variant (attribute attrib) @ '' '' @ regsrc @ newline))"

definition mmrp_dumptable :: "os \<Rightarrow> sockaddr_in \<Rightarrow> mmrp_database \<Rightarrow> world \<Rightarrow> int \<times> world" where
  "mmrp_dumptable env client db w =
     (let (ok, w1) = malloc env MAX_MRPD_CMDSZ w
      in if \<not> ok then (-1, w1)
         else let (ok_stage, w2) = malloc env BUFSIZE w1;
                  (ok_variant, w3) = malloc env BUFSIZE w2;
                  (ok_regsrc, w4) = malloc env BUFSIZE w3
              in if \<not> ok_stage \<or> \<not> ok_variant \<or> \<not> ok_regsrc then (0, w4)
                 else if attrib_list db = []
                 then (0, snd (mrpd_send_ctl_msg env client (''MMRP:Empty'' @ newline) MAX_MRPD_CMDSZ w4))
                 else (case mrp_dump_lines BUFSIZE 0 [] (map mmrp_dump_line (attrib_list db)) of
                         None \<Rightarrow> (0, crash w4)
                       | Some msgbuf \<Rightarrow> (0, snd (mrpd_send_ctl_msg env client msgbuf MAX_MRPD_CMDSZ w4))))"

text \<open>Return value and address, or service.\<close>

definition mmrp_cmd_parse_mac :: "string \<Rightarrow> int \<times> bytes" where
  "mmrp_cmd_parse_mac buf =
     (if length buf < 17 then (-1, replicate 6 0)
      else case parse (drop 4 buf) [(''M='', parse_mac)] of
             (rc, _, vs) \<Rightarrow> (rc, (case vs of [Some (V_bytes m)] \<Rightarrow> m | _ \<Rightarrow> replicate 6 0)))"

definition mmrp_cmd_parse_service :: "string \<Rightarrow> int \<times> byte" where
  "mmrp_cmd_parse_service buf =
     (if length buf < 5 then (-1, 0)
      else case parse (drop 4 buf) [(''S='', parse_u8)] of
             (rc, _, vs) \<Rightarrow> (rc, (case vs of [Some (V_u8 s)] \<Rightarrow> s | _ \<Rightarrow> 0)))"

definition mmrp_cmd_mac ::
  "os \<Rightarrow> int \<Rightarrow> bytes \<Rightarrow> mrp_event \<Rightarrow> mmrp_database \<Rightarrow> world \<Rightarrow> int \<times> mmrp_database \<times> world" where
  "mmrp_cmd_mac env sock mac event db w =
     (case mmrp_alloc env w of
        (None, w1) \<Rightarrow> (-1, db, w1)
      | (Some a, w1) \<Rightarrow>
          let (_, db', w') = mmrp_event env sock event (Some (a\<lparr>attribute := MACVEC mac\<rparr>)) db w1
          in (0, db', w'))"

definition mmrp_cmd_service ::
  "os \<Rightarrow> int \<Rightarrow> byte \<Rightarrow> mrp_event \<Rightarrow> mmrp_database \<Rightarrow> world \<Rightarrow> int \<times> mmrp_database \<times> world" where
  "mmrp_cmd_service env sock service event db w =
     (case mmrp_alloc env w of
        (None, w1) \<Rightarrow> (-1, db, w1)
      | (Some a, w1) \<Rightarrow>
          let (_, db', w') = mmrp_event env sock event (Some (a\<lparr>attribute := SVCREQ service\<rparr>)) db w1
          in (0, db', w'))"

text \<open>A parsed command: the error replies of the two failure labels.\<close>

definition mmrp_service_cmd ::
  "os \<Rightarrow> int \<Rightarrow> mrp_event \<Rightarrow> string \<Rightarrow> sockaddr_in \<Rightarrow> mmrp_database \<Rightarrow> world \<Rightarrow> int \<times> mmrp_database \<times> world" where
  "mmrp_service_cmd env sock event buf client db w =
     (case mmrp_cmd_parse_service buf of
        (rc, service) \<Rightarrow>
          if rc \<noteq> 0 then (-1, db, respond env client 12 (''ERP '' @ c_string buf) w)
          else case mmrp_cmd_service env sock service event db w of
                 (rc, db', w') \<Rightarrow>
                   if rc \<noteq> 0 then (-1, db', respond env client 12 (''ERI '' @ c_string buf) w')
                   else (0, db', w'))"

definition mmrp_mac_cmd ::
  "os \<Rightarrow> int \<Rightarrow> mrp_event \<Rightarrow> string \<Rightarrow> sockaddr_in \<Rightarrow> mmrp_database \<Rightarrow> world \<Rightarrow> int \<times> mmrp_database \<times> world" where
  "mmrp_mac_cmd env sock event buf client db w =
     (case mmrp_cmd_parse_mac buf of
        (rc, mac) \<Rightarrow>
          if rc \<noteq> 0 then (-1, db, respond env client 12 (''ERP '' @ c_string buf) w)
          else case mmrp_cmd_mac env sock mac event db w of
                 (rc, db', w') \<Rightarrow>
                   if rc \<noteq> 0 then (-1, db', respond env client 12 (''ERI '' @ c_string buf) w')
                   else (0, db', w'))"

definition mmrp_recv_cmd ::
  "os \<Rightarrow> int \<Rightarrow> string \<Rightarrow> sockaddr_in \<Rightarrow> mmrp_database option \<Rightarrow> world \<Rightarrow>
     int \<times> mmrp_database option \<times> world" where
  "mmrp_recv_cmd env sock buf client d w =
     (case d of
        None \<Rightarrow> (-1, None, respond env client 12 (''ERC MMRP_db '' @ c_string buf @ newline) w)
      | Some db0 \<Rightarrow>
          let (_, cs, w1) = mrp_client_add env (clients (mrp_db db0)) client w;
              db = db0\<lparr>mrp_db := (mrp_db db0)\<lparr>clients := cs\<rparr>\<rparr>;
              join_or_new = (if buf ! 2 = CHR ''?'' then MRP_EVENT_JOIN else MRP_EVENT_NEW)
          in if length buf < 3 then (-1, Some db, w1)
             else if buf ! 0 \<noteq> CHR ''M'' then (-1, Some db, w1)
             else if take 3 buf = ''M??'' then (0, Some db, snd (mmrp_dumptable env client db w1))
             else if take 5 buf = ''M--:S'' then
               (case mmrp_service_cmd env sock MRP_EVENT_LV buf client db w1 of (rc, db', w') \<Rightarrow> (rc, Some db', w'))
             else if take 5 buf = ''M--:M'' then
               (case mmrp_mac_cmd env sock MRP_EVENT_LV buf client db w1 of (rc, db', w') \<Rightarrow> (rc, Some db', w'))
             else if take 5 buf = ''M++:S'' \<or> take 5 buf = ''M+?:S'' then
               (case mmrp_service_cmd env sock join_or_new buf client db w1 of (rc, db', w') \<Rightarrow> (rc, Some db', w'))
             else if take 5 buf = ''M++:M'' \<or> take 5 buf = ''M+?:M'' then
               (case mmrp_mac_cmd env sock join_or_new buf client db w1 of (rc, db', w') \<Rightarrow> (rc, Some db', w'))
             else (-1, Some db, respond env client 12 (''ERC MMRP '' @ c_string buf) w1))"

section \<open>Initialisation, garbage collection and the end of a client\<close>

text \<open>Return value, \<^verbatim>\<open>mmrp_socket\<close> and \<^verbatim>\<open>MMRP_db\<close>.\<close>

definition mmrp_init ::
  "os \<Rightarrow> bool \<Rightarrow> world \<Rightarrow> int \<times> int \<times> mmrp_database option \<times> world" where
  "mmrp_init env mmrp_enable w =
     (if \<not> mmrp_enable then (0, -1, None, w)
      else let (rc, sock, w1) = mrpd_init_protocol_socket env MMRP_ETYPE MMRP_ADDR w
      in if rc < 0 then (-1, sock, None, w1)
      else let (ok, w2) = malloc env 72 w1
      in if \<not> ok then (-1, -1, None, snd (mrpd_close_socket env sock w2))
      else let (rc, d, w3) = mrpd_init_timers env cleared_database w2
      in if rc < 0 then (-1, -1, None, snd (mrpd_close_socket env sock w3))
      else let (_, d', w4) = mrp_lvatimer_fsm env d MRP_EVENT_BEGIN w3
           in (0, sock, Some \<lparr>mrp_db = d', attrib_list = [], send_empty_LeaveAll_flag = False\<rparr>, w4))"

text \<open>The clients are told of every attribute that is freed.\<close>

fun mmrp_reclaim_list :: "os \<Rightarrow> sockaddr_in list \<Rightarrow> mmrp_attribute list \<Rightarrow> world \<Rightarrow> mmrp_attribute list \<times> world" where
  "mmrp_reclaim_list env cs [] w = ([], w)"
| "mmrp_reclaim_list env cs (a # as) w =
     (if reclaimable a
      then mmrp_reclaim_list env cs as (snd (mmrp_send_notifications env cs a MRP_NOTIFY_LV w))
      else let (as', w') = mmrp_reclaim_list env cs as w in (a # as', w'))"

definition mmrp_reclaim :: "os \<Rightarrow> mmrp_database option \<Rightarrow> world \<Rightarrow> int \<times> mmrp_database option \<times> world" where
  "mmrp_reclaim env d w =
     (case d of
        None \<Rightarrow> (0, None, w)
      | Some db \<Rightarrow>
          let (as, w') = mmrp_reclaim_list env (clients (mrp_db db)) (attrib_list db) w
          in (0, Some (db\<lparr>attrib_list := as\<rparr>), w'))"

text \<open>The memory of the database is released; it may not be used any more.\<close>

definition mmrp_reset :: "mmrp_database option \<Rightarrow> mmrp_database option" where
  "mmrp_reset d = None"

definition mmrp_bye :: "sockaddr_in \<Rightarrow> mmrp_database option \<Rightarrow> mmrp_database option" where
  "mmrp_bye client d =
     map_option (\<lambda>db. db\<lparr>mrp_db := (mrp_db db)\<lparr>clients := mrp_client_delete (clients (mrp_db db)) client\<rparr>\<rparr>) d"

section \<open>The attribute list implements the store interface\<close>

text \<open>Up to two blocks, one for each type, ordered inside.\<close>

definition mmrp_ordered :: "mmrp_value list \<Rightarrow> bool" where
  "mmrp_ordered vs \<longleftrightarrow>
     (\<exists>xs ys. vs = xs @ ys \<and> sorted_wrt mmrp_less xs \<and> sorted_wrt mmrp_less ys \<and>
        (\<forall>x \<in> set xs. \<forall>y \<in> set ys. mmrp_type x \<noteq> mmrp_type y))"

lemma mmrp_less_type: "mmrp_less x y \<Longrightarrow> mmrp_type x = mmrp_type y"
  by (cases x; cases y) auto

lemma mmrp_less_irrefl: "\<not> mmrp_less x x"
  by (cases x) auto

lemma mmrp_less_linear: "mmrp_type x = mmrp_type y \<Longrightarrow> x \<noteq> y \<Longrightarrow> \<not> mmrp_less x y \<Longrightarrow> mmrp_less y x"
  by (cases x; cases y) (auto simp: MMRP_SVCREQ_TYPE_def MMRP_MACVEC_TYPE_def)

lemma mmrp_less_trans: "mmrp_less x y \<Longrightarrow> mmrp_less y z \<Longrightarrow> mmrp_less x z"
  by (cases x; cases y; cases z) auto

lemma hereditary_mmrp_ordered [simp]: "hereditary mmrp_ordered"
  unfolding hereditary_def
proof (intro allI impI)
  fix us vs :: "mmrp_value list"
  assume sub: "subseq us vs" and ord: "mmrp_ordered vs"
  from ord obtain xs ys where vs: "vs = xs @ ys" "sorted_wrt mmrp_less xs" "sorted_wrt mmrp_less ys"
    "\<forall>x \<in> set xs. \<forall>y \<in> set ys. mmrp_type x \<noteq> mmrp_type y"
    unfolding mmrp_ordered_def by blast
  from sub vs(1) obtain xs' ys' where us: "us = xs' @ ys'" "subseq xs' xs" "subseq ys' ys"
    by (metis subseq_appendE)
  then have "set xs' \<subseteq> set xs" "set ys' \<subseteq> set ys" by (auto dest: subseq_order.order_trans list_emb_set)
  then have "sorted_wrt mmrp_less xs' \<and> sorted_wrt mmrp_less ys' \<and>
      (\<forall>x \<in> set xs'. \<forall>y \<in> set ys'. mmrp_type x \<noteq> mmrp_type y)"
    using us vs sorted_wrt_subseq by blast
  with us(1) show "mmrp_ordered us" unfolding mmrp_ordered_def by blast
qed

lemma mmrp_add_insert_at: "mmrp_add as r = (i, as') \<Longrightarrow> i \<le> length as \<and> as' = insert_at i r as"
  by (induction as arbitrary: i as') (auto simp: Let_def split: if_splits prod.splits)

text \<open>Insertion passes a block of the other type, and keeps a block of its own type ordered.\<close>

lemma mmrp_add_skip:
  "\<forall>x \<in> set as. mmrp_type (attribute x) \<noteq> mmrp_type (attribute r) \<Longrightarrow>
   snd (mmrp_add (as @ bs) r) = as @ snd (mmrp_add bs r)"
  by (induction as) (auto simp: Let_def split: prod.splits)

lemma mmrp_add_block:
  assumes "as \<noteq> []" "\<forall>x \<in> set as. mmrp_type (attribute x) = mmrp_type (attribute r)"
    and "bs = [] \<or> mmrp_type (attribute (hd bs)) \<noteq> mmrp_type (attribute r)"
    and "sorted_wrt mmrp_less (map attribute as)" "\<forall>x \<in> set as. attribute x \<noteq> attribute r"
  shows "\<exists>cs. snd (mmrp_add (as @ bs) r) = cs @ bs \<and> sorted_wrt mmrp_less (map attribute cs) \<and>
    attribute ` set cs = insert (attribute r) (attribute ` set as)"
  using assms(1,2,4,5)
proof (induction as)
  case (Cons a as)
  have t: "mmrp_type (attribute a) = mmrp_type (attribute r)" using Cons.prems(2) by simp
  have sorted: "\<forall>x \<in> set as. mmrp_less (attribute a) (attribute x)" "sorted_wrt mmrp_less (map attribute as)"
    using Cons.prems(3) by simp_all
  show ?case
  proof (cases "mmrp_less (attribute a) (attribute r)")
    case False
    then have l: "mmrp_less (attribute r) (attribute a)"
      using t Cons.prems(4) mmrp_less_linear [of "attribute a" "attribute r"] by simp
    then have "sorted_wrt mmrp_less (map attribute (r # a # as))"
      using sorted mmrp_less_trans [OF l] by simp
    then show ?thesis using False t by (intro exI [of _ "r # a # as"]) simp
  next
    case True
    show ?thesis
    proof (cases "as = []")
      case Nil: True
      then have "snd (mmrp_add ((a # as) @ bs) r) = [a, r] @ bs" using True t assms(3) by auto
      then show ?thesis using True Nil by (intro exI [of _ "[a, r]"]) auto
    next
      case False
      obtain cs where cs: "snd (mmrp_add (as @ bs) r) = cs @ bs" "sorted_wrt mmrp_less (map attribute cs)"
          "attribute ` set cs = insert (attribute r) (attribute ` set as)"
        using Cons.IH [OF False _ sorted(2)] Cons.prems(2,4) by (meson list.set_intros(2))
      have "mmrp_less (attribute a) v" if "v \<in> attribute ` set cs" for v
        using that sorted(1) True unfolding cs(3) by blast
      moreover have "mmrp_type (attribute (hd (as @ bs))) = mmrp_type (attribute r)"
        using False Cons.prems(2) by (cases as) simp_all
      then have "snd (mmrp_add ((a # as) @ bs) r) = (a # cs) @ bs"
        using True t False cs(1) by (simp add: Let_def case_prod_unfold)
      moreover have "attribute ` set (a # cs) = insert (attribute r) (attribute ` set (a # as))"
        using cs(3) by auto
      ultimately show ?thesis using cs(2) by (intro exI [of _ "a # cs"] conjI) simp_all
    qed
  qed
qed simp

lemma mmrp_orderedI:
  "\<lbrakk>vs = xs @ ys; sorted_wrt mmrp_less xs; sorted_wrt mmrp_less ys;
    \<And>x y. x \<in> set xs \<Longrightarrow> y \<in> set ys \<Longrightarrow> mmrp_type x \<noteq> mmrp_type y\<rbrakk> \<Longrightarrow> mmrp_ordered vs"
  unfolding mmrp_ordered_def by blast

lemma mmrp_sorted_type:
  "sorted_wrt mmrp_less vs \<Longrightarrow> x \<in> set vs \<Longrightarrow> y \<in> set vs \<Longrightarrow> mmrp_type x = mmrp_type y"
proof (induction vs)
  case (Cons v vs)
  have "mmrp_type z = mmrp_type v" if "z \<in> set (v # vs)" for z
    using that Cons.prems(1) mmrp_less_type [of v z] by auto
  then show ?case using Cons.prems(2,3) by metis
qed simp

lemma mmrp_two_types: "mmrp_type x \<noteq> t \<Longrightarrow> mmrp_type y \<noteq> t \<Longrightarrow> t = mmrp_type z \<Longrightarrow> mmrp_type x = mmrp_type y"
  by (cases x; cases y; cases z) auto

lemma mmrp_add_sorted:
  assumes "mmrp_ordered (map attribute as)" "\<forall>a \<in> set as. attribute a \<noteq> attribute r"
  shows "mmrp_ordered (map attribute (snd (mmrp_add as r)))"
proof -
  let ?t = "mmrp_type (attribute r)"
  from assms(1) obtain us vs where uv: "map attribute as = us @ vs" "sorted_wrt mmrp_less us" "sorted_wrt mmrp_less vs"
    "\<forall>x \<in> set us. \<forall>y \<in> set vs. mmrp_type x \<noteq> mmrp_type y"
    unfolding mmrp_ordered_def by blast
  from uv(1) obtain xs ys where as: "as = xs @ ys" "us = map attribute xs" "vs = map attribute ys"
    unfolding map_eq_append_conv by blast
  have sx: "sorted_wrt mmrp_less (map attribute xs)" and sy: "sorted_wrt mmrp_less (map attribute ys)"
    using uv(2,3) as(2,3) by simp_all
  have nx: "\<forall>x \<in> set xs. attribute x \<noteq> attribute r" and ny: "\<forall>y \<in> set ys. attribute y \<noteq> attribute r"
    using assms(2) as(1) by simp_all
  have d: "mmrp_type (attribute x) \<noteq> mmrp_type (attribute y)" if "x \<in> set xs" "y \<in> set ys" for x y
    using uv(4) that as(2,3) by simp
  consider (first) x where "x \<in> set xs" "mmrp_type (attribute x) = ?t"
    | (second) y where "y \<in> set ys" "mmrp_type (attribute y) = ?t" "\<forall>x \<in> set xs. mmrp_type (attribute x) \<noteq> ?t"
    | (none) "\<forall>a \<in> set as. mmrp_type (attribute a) \<noteq> ?t"
    using as(1) by auto
  then show ?thesis
  proof cases
    case first
    have "mmrp_type (attribute z) = ?t" if "z \<in> set xs" for z
      using that first mmrp_sorted_type [OF sx, of "attribute z" "attribute x"] by simp
    then have t: "\<forall>z \<in> set xs. mmrp_type (attribute z) = ?t" "xs \<noteq> []" using first(1) by auto
    have o: "\<forall>y \<in> set ys. mmrp_type (attribute y) \<noteq> ?t" using d [OF first(1)] first(2) by metis
    then have "ys = [] \<or> mmrp_type (attribute (hd ys)) \<noteq> ?t" by (cases ys) simp_all
    from mmrp_add_block [OF t(2,1) this sx nx] obtain cs where cs: "snd (mmrp_add as r) = cs @ ys"
        "sorted_wrt mmrp_less (map attribute cs)" "attribute ` set cs = insert (attribute r) (attribute ` set xs)"
      unfolding as(1) by blast
    have c: "mmrp_type v = ?t" if "v \<in> set (map attribute cs)" for v
      using that unfolding set_map cs(3) using t(1) by auto
    show ?thesis
    proof (rule mmrp_orderedI [of _ "map attribute cs" "map attribute ys"])
      show "mmrp_type x \<noteq> mmrp_type y" if "x \<in> set (map attribute cs)" "y \<in> set (map attribute ys)" for x y
        using c [OF that(1)] o that(2) by auto
    qed (simp_all add: cs(1,2) sy)
  next
    case second
    have "mmrp_type (attribute z) = ?t" if "z \<in> set ys" for z
      using that second(1,2) mmrp_sorted_type [OF sy, of "attribute z" "attribute y"] by simp
    then have t: "\<forall>z \<in> set ys. mmrp_type (attribute z) = ?t" "ys \<noteq> []" using second(1) by auto
    from mmrp_add_block [OF t(2,1) disjI1 [OF refl] sy ny] obtain cs where cs: "snd (mmrp_add ys r) = cs"
        "sorted_wrt mmrp_less (map attribute cs)" "attribute ` set cs = insert (attribute r) (attribute ` set ys)"
      unfolding append_Nil2 by blast
    have c: "mmrp_type v = ?t" if "v \<in> set (map attribute cs)" for v
      using that unfolding set_map cs(3) using t(1) by auto
    show ?thesis
    proof (rule mmrp_orderedI [of _ "map attribute xs" "map attribute cs"])
      show "map attribute (snd (mmrp_add as r)) = map attribute xs @ map attribute cs"
        using mmrp_add_skip [OF second(3)] as(1) cs(1) by simp
      show "mmrp_type x \<noteq> mmrp_type y" if "x \<in> set (map attribute xs)" "y \<in> set (map attribute cs)" for x y
        using c [OF that(2)] second(3) that(1) by auto
    qed (simp_all add: cs(2) sx)
  next
    case none
    have "xs = [] \<or> ys = []"
      using none d [of "hd xs" "hd ys"] mmrp_two_types [of "attribute (hd xs)" ?t "attribute (hd ys)" "attribute r"]
        as(1) hd_in_set by force
    then have "sorted_wrt mmrp_less (map attribute as)" using sx sy as(1) by auto
    moreover have "snd (mmrp_add as r) = as @ [r]" using mmrp_add_skip [OF none, of "[]"] by simp
    ultimately show ?thesis
      by (intro mmrp_orderedI [of _ "map attribute as" "[attribute r]"]) (use none in auto)
  qed
qed

lemma mmrp_sorted_distinct: "sorted_wrt mmrp_less xs \<Longrightarrow> distinct xs"
  by (induction xs) (auto simp: mmrp_less_irrefl)

lemma mmrp_ordered_distinct:
  assumes "mmrp_ordered vs"
  shows "distinct vs"
proof -
  from assms obtain xs ys where v: "vs = xs @ ys" "sorted_wrt mmrp_less xs" "sorted_wrt mmrp_less ys"
    "\<forall>x \<in> set xs. \<forall>y \<in> set ys. mmrp_type x \<noteq> mmrp_type y"
    unfolding mmrp_ordered_def by blast
  from v(4) have "set xs \<inter> set ys = {}" by blast
  with v mmrp_sorted_distinct show ?thesis by simp
qed

interpretation mmrp_store: registering_store mmrp_lookup mmrp_add mmrp_merge "\<lambda>v. v" mmrp_ordered
proof unfold_locales
  fix as :: "mmrp_attribute list" and r i as' a
  show "mmrp_lookup as r = Some i \<Longrightarrow> i < length as \<and> attribute (as ! i) = attribute r"
    by (auto simp: mmrp_lookup_def dest: find_pos_Some)
  show "mmrp_lookup as r = None \<Longrightarrow> a \<in> set as \<Longrightarrow> attribute a \<noteq> attribute r"
    by (simp add: mmrp_lookup_def find_pos_None)
  show "mmrp_add as r = (i, as') \<Longrightarrow> i \<le> length as \<and> as' = insert_at i r as"
    by (rule mmrp_add_insert_at)
  show "keys_sorted (\<lambda>v. v) mmrp_ordered as \<Longrightarrow> mmrp_lookup as r = None \<Longrightarrow>
      keys_sorted (\<lambda>v. v) mmrp_ordered (snd (mmrp_add as r))"
    by (simp add: keys_sorted_def mmrp_lookup_def find_pos_None mmrp_add_sorted)
qed (simp_all add: mmrp_merge_def mmrp_ordered_distinct)

end
