(* ===== verification/Mmrp_Correct.thy ===== *)
theory Mmrp_Correct
  imports Mmrp
begin

text \<open>
  Correctness of the MMRP event handler: the invariant of the database and its preservation by
  every event, the declared services and addresses, and when transmission stays inside the
  frame buffer.
\<close>

abbreviation mmrp_inv :: "mmrp_database \<Rightarrow> bool" where
  "mmrp_inv \<equiv> app_inv (\<lambda>v. v) mmrp_ordered"

abbreviation mmrp_core :: "mmrp_attribute list \<Rightarrow> mrp_database \<Rightarrow> bool" where
  "mmrp_core \<equiv> list_core (\<lambda>v. v) mmrp_ordered"

section \<open>Transmission\<close>

lemma mmrp_mac_cases:
  assumes "mmrp_emit_macvectors buf 15 MAX_FRAME_SIZE l as = (r, as')" "length buf = MAX_FRAME_SIZE"
  shows "tx_cleared as as' \<and> (case r of Fault \<Rightarrow> False | Goto \<Rightarrow> True
     | Next (b, n) \<Rightarrow> length b = MAX_FRAME_SIZE \<and> 15 + n \<le> MAX_FRAME_SIZE \<and> n \<le> 4 + 9 * length as)"
proof -
  have "emit_safe mmrp_mac_params"
    by (auto simp: emit_safe_def mmrp_mac_params_def split: mmrp_value.splits)
  then have "case emit_message mmrp_mac_params buf 15 MAX_FRAME_SIZE l False as of
      (Next (buf', n), _) \<Rightarrow> length buf' = length buf \<and> 15 + n \<le> MAX_FRAME_SIZE
    | (Goto, _) \<Rightarrow> True | (Fault, _) \<Rightarrow> False"
    by (rule emit_message_safe) (simp_all add: assms(2) vector_fits_def mmrp_mac_params_def)
  moreover have "tx_cleared as as'"
    using assms(1) emit_message_tx_cleared [of as mmrp_mac_params buf 15 MAX_FRAME_SIZE l False]
    by (simp add: mmrp_emit_macvectors_def)
  moreover have "n \<le> 4 + 9 * length as" if "r = Next (b, n)" for b n
  proof -
    have "em_data mmrp_mac_params = 2" "em_vectidx mmrp_mac_params = 6" by (simp_all add: mmrp_mac_params_def)
    then have "n \<le> 4 + 9 * tx_number mmrp_mac_params as"
      using emit_message_size [of mmrp_mac_params buf 15 MAX_FRAME_SIZE l False as b n as'] assms(1) that
      by (simp add: mmrp_emit_macvectors_def)
    then show ?thesis using tx_number_le [of mmrp_mac_params as] by simp
  qed
  ultimately show ?thesis
    using assms by (auto simp: mmrp_emit_macvectors_def split: flow.splits)
qed

lemma mmrp_svc_cases:
  assumes "mmrp_emit_svcvectors pad buf p MAX_FRAME_SIZE l s as = (r, as')" "length buf = MAX_FRAME_SIZE"
  shows "tx_cleared as as' \<and> ((s \<longrightarrow> p + 7 \<le> MAX_FRAME_SIZE) \<longrightarrow> (case r of Fault \<Rightarrow> False | Goto \<Rightarrow> True
     | Next (b, n) \<Rightarrow> length b = MAX_FRAME_SIZE \<and> p + n \<le> MAX_FRAME_SIZE))"
proof -
  let ?es = "mmrp_svc_params pad"
  have "emit_safe ?es"
    by (auto simp: emit_safe_def mmrp_svc_params_def split: mmrp_value.splits)
  then have "case emit_message ?es buf p MAX_FRAME_SIZE l s as of
      (Next (buf', n), _) \<Rightarrow> length buf' = length buf \<and> p + n \<le> MAX_FRAME_SIZE
    | (Goto, _) \<Rightarrow> True | (Fault, _) \<Rightarrow> False" if "s \<longrightarrow> p + 7 \<le> MAX_FRAME_SIZE"
    by (rule emit_message_safe) (use assms(2) that in \<open>simp_all add: mmrp_svc_params_def vector_fits_def\<close>)
  moreover have "tx_cleared as as'"
    using assms(1) emit_message_tx_cleared [of as ?es buf p MAX_FRAME_SIZE l s]
    by (simp add: mmrp_emit_svcvectors_def)
  ultimately show ?thesis
    using assms by (cases "s \<longrightarrow> p + 7 \<le> MAX_FRAME_SIZE") (auto simp: mmrp_emit_svcvectors_def split: flow.splits)
qed

text \<open>
  The frame buffer has room for the empty LeaveAll message when there are at most 219
  attributes: each needs at most nine bytes of the MAC vectors.
\<close>

definition mmrp_room :: "mmrp_value list \<Rightarrow> bool" where
  "mmrp_room vs \<longleftrightarrow> length vs \<le> 219"

lemma mmrp_txpdu_step:
  assumes "mmrp_txpdu env sock db w = (rc, db', w')"
  shows "tx_cleared (attrib_list db) (attrib_list db') \<and> timer_frame (mrp_db db) (mrp_db db') \<and>
    send_empty_LeaveAll_flag db' = send_empty_LeaveAll_flag db \<and>
    ((send_empty_LeaveAll_flag db \<longrightarrow> mmrp_room (map attribute (attrib_list db))) \<longrightarrow> extends w w')"
proof -
  obtain ok w1 where m: "malloc env MAX_FRAME_SIZE w = (ok, w1)" by (cases "malloc env MAX_FRAME_SIZE w")
  have e1: "extends w w1" using extends_malloc [of w env MAX_FRAME_SIZE] m by simp
  have e2: "extends w (snd (mrpd_send env sock f w1))" for f
    using extends_trans [OF e1] by (simp add: mrpd_send_def)
  let ?s = "send_empty_LeaveAll_flag db" and ?l = "lva_tx (lva (mrp_db db))"
  let ?b = "mrp_frame_buffer MMRP_ADDR (station_addr w) MMRP_ETYPE MMRP_PROT_VER"
  obtain r as where e: "mmrp_emit_macvectors ?b 15 MAX_FRAME_SIZE ?l (attrib_list db) = (r, as)" by (metis prod.exhaust)
  note M = mmrp_mac_cases [OF e length_mrp_frame_buffer]
  show ?thesis
  proof (cases "ok \<and> (\<exists>b n. r = Next (b, n) \<and> \<not> MAX_FRAME_SIZE \<le> 15 + n + 2)")
    case False
    then show ?thesis using assms m e M e1
      by (cases r) (auto simp: mmrp_txpdu_def Let_def split: if_splits)
  next
    case True
    then obtain b n where ok: "ok" and r: "r = Next (b, n)" "\<not> MAX_FRAME_SIZE \<le> 15 + n + 2" by blast
    obtain q bs where v: "mmrp_emit_svcvectors (mmrp_vectevt_pad env w1) b (15 + n) MAX_FRAME_SIZE ?l ?s as = (q, bs)"
      by (metis prod.exhaust)
    have "length b = MAX_FRAME_SIZE" using M r by simp
    note V = mmrp_svc_cases [OF v this]
    have room: "15 + n + 7 \<le> MAX_FRAME_SIZE" if "mmrp_room (map attribute (attrib_list db))"
      using that M r by (auto simp: mmrp_room_def MAX_FRAME_SIZE_def)
    have t: "tx_cleared (attrib_list db) bs" using M V tx_cleared_trans by blast
    note unf = assms [unfolded mmrp_txpdu_def m Let_def prod.case e r(1) v flow.case]
    show ?thesis
    proof (cases q)
      case (Next x)
      obtain b2 n2 where x: "x = (b2, n2)" by (cases x)
      show ?thesis
      proof (cases "15 + n + n2 = 15 \<or> \<not> 15 + n + n2 + 2 < MAX_FRAME_SIZE")
        case True
        then show ?thesis using unf ok r(2) Next x t e1 by (auto simp del: wr_bytes.simps split: if_splits)
      next
        case False
        show ?thesis
        proof (cases "wr_bytes b2 (15 + n + n2) [0, 0]")
          case None
          then have "length b2 \<noteq> MAX_FRAME_SIZE" using False wr_bytes_Some [of "15 + n + n2" "[0, 0]" b2] by auto
          then show ?thesis using unf ok r(2) Next x t V None False room by (auto simp del: wr_bytes.simps)
        next
          case (Some frame)
          then show ?thesis using unf ok r(2) Next x t False e2 [of "take (15 + n + n2 + 2) frame"]
            by (auto simp del: wr_bytes.simps split: prod.splits)
        qed
      qed
    next
      case Goto
      then show ?thesis using unf ok r(2) t e1 by auto
    next
      case Fault
      then show ?thesis using unf ok r(2) t V room by auto
    qed
  qed
qed


section \<open>Notifications and reclamation\<close>

lemma extends_mmrp_send_notifications [simp, intro]: "extends w (snd (mmrp_send_notifications env cs a n w))"
proof -
  obtain ok w1 where b: "alloc_notify_bufs env w = (ok, w1)" by (cases "alloc_notify_bufs env w")
  then have e: "extends w w1" using extends_alloc_notify_bufs [of w env] by simp
  with b show ?thesis
    by (cases n) (auto simp: mmrp_send_notifications_def intro: extends_trans [OF e] split: option.splits)
qed

lemma mmrp_reclaim_list_step:
  assumes "mmrp_reclaim_list env cs as w = (as', w')"
  shows "as' = filter (\<lambda>a. \<not> reclaimable a) as \<and> extends w w'"
  using assms
proof (induction as arbitrary: w as' w')
  case (Cons a as)
  show ?case
  proof (cases "reclaimable a")
    case True
    then have l: "mmrp_reclaim_list env cs as (snd (mmrp_send_notifications env cs a MRP_NOTIFY_LV w)) = (as', w')"
      using Cons.prems by simp
    from Cons.IH [OF l] show ?thesis
      using True extends_trans [OF extends_mmrp_send_notifications [of w env cs a MRP_NOTIFY_LV], of w'] by simp
  next
    case False
    then show ?thesis using Cons by (auto simp: Let_def split: prod.splits)
  qed
qed simp

interpretation mmrp_tx: transmitter "\<lambda>v. v" mmrp_ordered mmrp_txpdu mmrp_send_notifications
  "\<lambda>send_empty vs. send_empty \<longrightarrow> mmrp_room vs"
  by unfold_locales (use mmrp_txpdu_step in blast, use mmrp_txpdu_step in blast, simp)

section \<open>The cases of the event handler\<close>

lemma mmrp_event_shared:
  "mmrp_event_LVATIMER env sock = app_event_LVATIMER (\<lambda>env. mmrp_txpdu env sock) env"
  "mmrp_event_TX env sock = app_event_TX (\<lambda>env. mmrp_txpdu env sock) env"
  "mmrp_event_PERIODIC env = app_event_PERIODIC env"
  "mmrp_event_RLA env t = app_event_RLA (\<lambda>v. mmrp_type v = t) env"
  "mmrp_notify env = app_notify mmrp_send_notifications env"
  by (rule ext, rule ext, simp only: mmrp_event_LVATIMER_def app_event_LVATIMER_def mmrp_event_TX_def app_event_TX_def
      mmrp_event_PERIODIC_def app_event_PERIODIC_def mmrp_event_RLA_def app_event_RLA_def
      mmrp_notify_def app_notify_def)+

text \<open>After the leave timer nothing is leaving any more.\<close>

lemma mmrp_lvtimer_loop_step:
  assumes "mmrp_lvtimer_loop env as db w = (as', db', w')"
  shows "db' = db \<and> w' = w \<and> map attribute as' = map attribute as \<and> map applicant as' = map applicant as \<and>
    (\<forall>a \<in> set as'. reg_state (registrar a) \<noteq> MRP_LV_STATE)"
  using assms
proof (induction as arbitrary: db w as' db' w')
  case (Cons a as)
  obtain bs db2 w3 where l: "mmrp_lvtimer_loop env as db w = (bs, db2, w3)" by (metis prod_cases3)
  show ?case using Cons.prems l Cons.IH [OF l] by (auto simp: attrib_registrar_LVTIMER split: if_splits)
qed simp

lemma same_declared_applicants:
  "map attribute bs = map attribute as \<Longrightarrow> map applicant bs = map applicant as \<Longrightarrow>
   same_declared as bs \<and> ((\<forall>a \<in> set as. sendable a) \<longrightarrow> (\<forall>a \<in> set bs. sendable a))"
proof (induction as arbitrary: bs)
  case (Cons a as)
  from Cons.prems obtain b bs' where b: "bs = b # bs'" "attribute b = attribute a" "applicant b = applicant a"
    and bs: "map attribute bs' = map attribute as" "map applicant bs' = map applicant as" by (cases bs) auto
  show ?case using Cons.IH [OF bs] sendable_applicant_eq [OF b(3)] b by simp
qed simp

lemma mmrp_event_LVTIMER_ok:
  assumes "mmrp_inv db"
  shows "case_ok (\<lambda>v. v) mmrp_ordered safe db w (mmrp_event_LVTIMER env db w)"
proof -
  obtain r1 d1 w1 where j: "mrp_lvtimer_stop env (mrp_db db) w = (r1, d1, w1)" by (metis prod_cases3)
  obtain as d2 w2 where l: "mmrp_lvtimer_loop env (attrib_list db) d1 w1 = (as, d2, w2)" by (metis prod_cases3)
  note L = mmrp_lvtimer_loop_step [OF l]
  have J: "clients d1 = clients (mrp_db db) \<and> extends w w1"
    using j by (auto simp: mrp_lvtimer_stop_def mrpd_timer_stop_def split: prod.splits)
      (metis extends_call_os snd_conv)
  have S: "same_declared (attrib_list db) as" "(\<forall>a \<in> set (attrib_list db). sendable a) \<longrightarrow> (\<forall>a \<in> set as. sendable a)"
    using same_declared_applicants [of as "attrib_list db"] L by auto
  have "mmrp_core as d2"
    using L S(2) assms keys_sorted_cong [of as "attrib_list db" "\<lambda>v. v" mmrp_ordered]
    by (auto simp: list_core_def app_inv_alt lv_ok_def lv_ok1_def)
  then show ?thesis
    using j l L J assms same_declared_set [OF S(1)]
    by (simp add: case_ok_def mmrp_event_LVTIMER_def app_inv_alt)
qed

lemma mmrp_event_attrib_step:
  assumes "mmrp_event_attrib env e r db w = (db', w')" "timers_ok env" "attr_new r"
    and "mmrp_core (attrib_list db) (mrp_db db)" "e \<in> attrib_events"
  shows "mmrp_core (attrib_list db') (mrp_db db') \<and> extends w w' \<and> clients (mrp_db db') = clients (mrp_db db) \<and>
    send_empty_LeaveAll_flag db' = send_empty_LeaveAll_flag db \<and>
    declared_set (attrib_list db') = declared_spec e (Some r) (declared_set (attrib_list db))"
proof -
  obtain i as d1 w1 where ev: "attribs_event mmrp_lookup mmrp_add mmrp_merge env e r (attrib_list db) (mrp_db db) w =
      (i, as, d1, w1)" by (metis prod_cases4)
  have res: "db' = db\<lparr>mrp_db := d1, attrib_list := as\<rparr>" "w' = w1"
    using assms(1) ev by (auto simp: mmrp_event_attrib_def)
  note E = mmrp_store.event_core [OF ev assms(4,2) attr_new_sendable [OF assms(3)] attr_new_lv_ok1 [OF assms(3)]]
  have srt: "keys_sorted (\<lambda>v. v) mmrp_ordered (attrib_list db)" using assms(4) by (simp add: list_core_def)
  have "declared_set as = declared_spec e (Some r) (declared_set (attrib_list db))"
    unfolding declared_spec_attrib [OF assms(5), symmetric]
    using mmrp_store.event_declared [OF ev srt] assms(3) by (simp add: attr_new_def)
  then show ?thesis using E by (simp add: res)
qed

section \<open>The event handler\<close>

text \<open>An event with the attribute the handler is given; the LeaveAll timer needs room in the buffer.\<close>

lemma mmrp_event_ok:
  assumes "mmrp_event env sock e r db w = (rc, db', w')" "timers_ok env" "mmrp_inv db" "\<forall>a. r = Some a \<longrightarrow> attr_new a"
    and "e \<notin> attrib_events \<Longrightarrow> e \<noteq> MRP_EVENT_RLA \<Longrightarrow> r = None"
  shows "mmrp_inv db' \<and> clients (mrp_db db') = clients (mrp_db db) \<and>
    declared_set (attrib_list db') = declared_spec e r (declared_set (attrib_list db)) \<and>
    ((e = MRP_EVENT_LVATIMER \<longrightarrow> mmrp_room (map attribute (attrib_list db))) \<longrightarrow> extends w w')"
proof (cases "e \<in> insert MRP_EVENT_RLA attrib_events")
  case False
  then have r: "r = None" using assms(5) by simp
  let ?safe = "e = MRP_EVENT_LVATIMER \<longrightarrow> mmrp_room (map attribute (attrib_list db))"
  let ?res = "case e of MRP_EVENT_LVATIMER \<Rightarrow> mmrp_event_LVATIMER env sock db w
                  | MRP_EVENT_TX \<Rightarrow> mmrp_event_TX env sock db w
                  | MRP_EVENT_LVTIMER \<Rightarrow> mmrp_event_LVTIMER env db w
                  | MRP_EVENT_PERIODIC \<Rightarrow> mmrp_event_PERIODIC env db w
                  | _ \<Rightarrow> (db, w)"
  have "case_ok (\<lambda>v. v) mmrp_ordered True db w (db, w)" using assms(3) by (rule case_ok_refl)
  then have ok: "case_ok (\<lambda>v. v) mmrp_ordered ?safe db w ?res"
    using assms(2,3)
    by (cases e) (simp_all add: mmrp_event_shared mmrp_event_LVTIMER_ok mmrp_tx.event_LVATIMER_ok [simplified] mmrp_tx.event_TX_ok [simplified]
        app_event_PERIODIC_ok)
  obtain db2 w2 where res: "?res = (db2, w2)" by (metis prod.exhaust)
  obtain db3 w3 where n: "mmrp_notify env db2 w2 = (db3, w3)" by (metis prod.exhaust)
  have eq: "db' = db3" "w' = w3" using assms(1) False res n by (auto simp: mmrp_event_def)
  show ?thesis
    using mmrp_tx.case_notify [OF _ n [unfolded mmrp_event_shared], of ?safe db w] ok res
    by (simp add: eq r declared_spec_def)
next
  case True
  obtain r1 d1 w1 where j: "mrp_jointimer_start env (mrp_db db) w = (r1, d1, w1)" by (metis prod_cases3)
  let ?db = "db\<lparr>mrp_db := d1\<rparr>"
  note J = mrp_jointimer_start_frame [OF j]
  have core: "mmrp_core (attrib_list ?db) (mrp_db ?db)" "\<not> send_empty_LeaveAll_flag ?db"
    using J assms(3) by (auto simp: app_inv_alt intro: list_core_timerI)
  show ?thesis
  proof (cases r)
    case None
    then show ?thesis
      using assms(1,3) True j J core
      by (auto simp: mmrp_event_def declared_spec_def app_inv_alt timer_frame_def)
  next
    case (Some a)
    obtain db2 w2 where e: "(if e = MRP_EVENT_RLA then mmrp_event_RLA env (mmrp_type (attribute a)) ?db w1
        else mmrp_event_attrib env e a ?db w1) = (db2, w2)" by (metis prod.exhaust)
    obtain db3 w3 where n: "mmrp_notify env db2 w2 = (db3, w3)" by (metis prod.exhaust)
    have eq: "db' = db3" "w' = w3" using assms(1) True Some j e n by (auto simp: mmrp_event_def)
    have E: "mmrp_core (attrib_list db2) (mrp_db db2) \<and> extends w1 w2 \<and> clients (mrp_db db2) = clients d1 \<and>
      \<not> send_empty_LeaveAll_flag db2 \<and>
      declared_set (attrib_list db2) = declared_spec e r (declared_set (attrib_list db))"
    proof (cases "e = MRP_EVENT_RLA")
      case True
      then show ?thesis
        using app_event_RLA_ok [OF assms(2) core, of True w1 "\<lambda>v. mmrp_type v = mmrp_type (attribute a)"] e Some
        by (simp add: mmrp_event_shared case_ok_def declared_spec_def)
    next
      case False
      then show ?thesis
        using mmrp_event_attrib_step [OF _ assms(2) _ core(1), of e a w1 db2 w2] e True core(2) assms(4) Some by simp
    qed
    note N = mmrp_tx.notify_step [OF n [unfolded mmrp_event_shared]]
    have "mmrp_inv db3 \<and> list_keeps (attrib_list db2) (mrp_db db2) w2 (attrib_list db3) (mrp_db db3) w3"
      using N E by blast
    moreover have "extends w w2" using E J extends_trans by blast
    ultimately show ?thesis
      using E J extends_trans [of w w2 w3] by (simp add: eq list_keeps_def timer_frame_def)
  qed
qed

end
