(* ===== verification/Mmrp_Recv.thy ===== *)
theory Mmrp_Recv
  imports Mmrp_Correct
begin

text \<open>
  Correctness of the MMRP receive functions: every received frame keeps the invariant and the
  declarations of the local clients, and a frame of at most 1992 bytes is read without an
  access outside the receive buffer.
\<close>

section \<open>What reception keeps\<close>

definition mmrp_recv_keeps :: "mmrp_database \<Rightarrow> world \<Rightarrow> mmrp_database \<Rightarrow> world \<Rightarrow> bool" where
  "mmrp_recv_keeps db w db' w' \<longleftrightarrow> mmrp_inv db' \<and> extends w w' \<and>
     clients (mrp_db db') = clients (mrp_db db) \<and> declared_set (attrib_list db') = declared_set (attrib_list db)"

lemma mmrp_recv_keeps_trans:
  "mmrp_recv_keeps db w db1 w1 \<Longrightarrow> mmrp_recv_keeps db1 w1 db2 w2 \<Longrightarrow> mmrp_recv_keeps db w db2 w2"
  by (auto simp: mmrp_recv_keeps_def intro: extends_trans)

lemma mmrp_recv_keeps_refl: "mmrp_inv db \<Longrightarrow> extends w w' \<Longrightarrow> mmrp_recv_keeps db w db w'"
  by (simp add: mmrp_recv_keeps_def)

lemma mmrp_alloc_step:
  "mmrp_alloc env w = (r, w') \<Longrightarrow> extends w w' \<and> (malloc_ok env \<longrightarrow> r \<noteq> None) \<and>
     (\<forall>a. r = Some a \<longrightarrow> a = fresh_attribute (SVCREQ 0))"
  using extends_malloc [of w env 72] malloc_ok_True [of env 72 w]
  by (auto simp: mmrp_alloc_def Let_def simp del: extends_malloc split: if_splits prod.splits)

text \<open>An event the protocol brings in: what a peer sent about one attribute, or its LeaveAll.\<close>

lemma mmrp_event_recv_keeps:
  assumes "mmrp_event env sock e (Some a) db w = (rc, db', w')" "timers_ok env" "mmrp_inv db" "attr_new a"
    and "e \<in> insert MRP_EVENT_RLA attrib_events" "e \<notin> {MRP_EVENT_NEW, MRP_EVENT_JOIN, MRP_EVENT_LV}"
  shows "mmrp_recv_keeps db w db' w'"
proof -
  have "declared_spec e (Some a) D = D" for D using assms(6) by (cases e) (auto simp: declared_spec_def)
  moreover have "e \<noteq> MRP_EVENT_LVATIMER" using assms(5) by (auto simp: attrib_events_def)
  ultimately show ?thesis
    using mmrp_event_ok [OF assms(1-3)] assms(4,5) by (auto simp: mmrp_recv_keeps_def)
qed

lemma mmrp_recv_evt_keeps:
  assumes "timers_ok env" "mmrp_recv_evt env sock src c (v, db, w) = (r, v', db', w')" "mmrp_inv db"
  shows "mmrp_recv_keeps db w db' w'"
proof -
  obtain o1 w1 where al: "mmrp_alloc env w = (o1, w1)" by (metis prod.exhaust)
  note A = mmrp_alloc_step [OF al]
  have refl: "mmrp_recv_keeps db w db w" "mmrp_recv_keeps db w db w1"
    using assms(3) A by (auto simp: mmrp_recv_keeps_def)
  let ?junk = "case v of SVCREQ s \<Rightarrow> 1 < s | MACVEC m \<Rightarrow> False"
  show ?thesis
  proof (cases "?junk \<or> o1 = None \<or> mrpdu_event c = None")
    case True
    then show ?thesis using assms(2) al refl by (auto simp: mmrp_recv_evt_def split: if_splits option.splits)
  next
    case False
    then obtain e where e: "mrpdu_event c = Some e" and o1: "o1 = Some (fresh_attribute (SVCREQ 0))" using A by auto
    let ?a = "(fresh_attribute (SVCREQ 0))\<lparr>attribute := v, registrar := (registrar (fresh_attribute (SVCREQ 0)))\<lparr>reg_macaddr := src\<rparr>\<rparr>"
    obtain rc db2 w2 where ev: "mmrp_event env sock e (Some ?a) db w1 = (rc, db2, w2)" by (metis prod_cases3)
    have "mmrp_recv_keeps db w1 db2 w2"
      by (rule mmrp_event_recv_keeps [OF ev assms(1,3) attr_new_fresh(1)]) (use mrpdu_event_attrib [OF e] in auto)
    with refl(2) have "mmrp_recv_keeps db w db2 w2" by (rule mmrp_recv_keeps_trans)
    then show ?thesis using assms(2) False al e o1 ev by (auto simp: mmrp_recv_evt_def)
  qed
qed

lemma mmrp_recv_events_keep:
  assumes "timers_ok env" "mmrp_inv db"
    and "recv_vector (mmrp_recv_evt env sock src) buf pos n nv (v, db, w) = (r, v', db', w')"
  shows "mmrp_recv_keeps db w db' w'"
proof -
  let ?I = "\<lambda>(v :: mmrp_value, db', w'). mmrp_recv_keeps db w db' w'"
  have step: "?I (snd (mmrp_recv_evt env sock src c s))" if "?I s" for c s
  proof -
    obtain v db1 w1 where s: "s = (v, db1, w1)" by (metis prod_cases3)
    obtain r v' db2 w2 where e: "mmrp_recv_evt env sock src c s = (r, v', db2, w2)" by (metis prod_cases4)
    have "mmrp_recv_keeps db w db1 w1" using that s by simp
    moreover have "mmrp_recv_keeps db1 w1 db2 w2"
      by (rule mmrp_recv_evt_keeps [OF assms(1) e [unfolded s]]) (use calculation in \<open>simp add: mmrp_recv_keeps_def\<close>)
    ultimately have "mmrp_recv_keeps db w db2 w2" by (rule mmrp_recv_keeps_trans)
    then show ?thesis by (simp add: e)
  qed
  have "?I (v, db, w)" using assms(2) by (simp add: mmrp_recv_keeps_def)
  then have "?I (snd (recv_vector (mmrp_recv_evt env sock src) buf pos n nv (v, db, w)))"
    by (rule recv_vector_state_inv [where I = ?I, rotated]) (rule step)
  then show ?thesis unfolding assms(3) by simp
qed

lemma mmrp_recv_leaveall_keeps:
  assumes "timers_ok env" "mmrp_inv db" "mmrp_recv_leaveall env sock t db w = (ok, db', w')"
  shows "mmrp_recv_keeps db w db' w'"
proof -
  obtain o1 w1 where al: "mmrp_alloc env w = (o1, w1)" by (metis prod.exhaust)
  note A = mmrp_alloc_step [OF al]
  show ?thesis
  proof (cases o1)
    case None
    then show ?thesis using assms(2,3) al A by (auto simp: mmrp_recv_leaveall_def mmrp_recv_keeps_def)
  next
    case (Some a)
    let ?a = "(fresh_attribute (SVCREQ 0))\<lparr>attribute := if t = MMRP_SVCREQ_TYPE then SVCREQ 0 else MACVEC (replicate 6 0)\<rparr>"
    obtain rc db2 w2 where ev: "mmrp_event env sock MRP_EVENT_RLA (Some ?a) db w1 = (rc, db2, w2)"
      by (metis prod_cases3)
    have "mmrp_recv_keeps db w1 db2 w2"
      by (rule mmrp_event_recv_keeps [OF ev assms(1,2) attr_new_fresh(2)]) simp_all
    moreover have "mmrp_recv_keeps db w db w1" using A assms(2) by (simp add: mmrp_recv_keeps_def)
    ultimately have "mmrp_recv_keeps db w db2 w2" by (rule mmrp_recv_keeps_trans [rotated])
    then show ?thesis using assms(3) al A Some ev by (simp add: mmrp_recv_leaveall_def)
  qed
qed

lemma mmrp_recv_vector_keeps:
  assumes "timers_ok env" "mmrp_inv db" "mmrp_recv_vector env sock buf eof src t p h saw db w = (r, saw', db', w')"
  shows "mmrp_recv_keeps db w db' w'"
proof -
  let ?rla = "MRPDU_VECT_LVA h \<and> (t = MMRP_SVCREQ_TYPE \<longrightarrow> \<not> saw)"
  obtain ok db1 w1 where rla: "(if ?rla then mmrp_recv_leaveall env sock t db w else (True, db, w)) = (ok, db1, w1)"
    by (metis prod_cases3)
  have K1: "mmrp_recv_keeps db w db1 w1"
    using rla mmrp_recv_leaveall_keeps [OF assms(1,2)] mmrp_recv_keeps_refl [OF assms(2)] by (auto split: if_splits)
  then have inv: "mmrp_inv db1" by (simp add: mmrp_recv_keeps_def)
  let ?nv = "unat (MRPDU_VECT_NUMVALUES h)"
  show ?thesis
  proof (cases "\<not> ok \<or> ?nv = 0 \<or> eof \<le> p + 2 + ?nv div 3 \<or> mmrp_recv_first t buf (p + 2) = None")
    case True
    then show ?thesis
      using assms(3) K1 unfolding mmrp_recv_vector_def Let_def rla prod.case
      by (cases "mmrp_recv_first t buf (p + 2)") (auto split: if_splits prod.splits)
  next
    case False
    then obtain v where v: "mmrp_recv_first t buf (p + 2) = Some v" by auto
    obtain r2 v2 db2 w2 where rv: "recv_vector (mmrp_recv_evt env sock src) buf (p + 2 + mmrp_firstlen t)
        (Suc (numvectorbytes ?nv)) ?nv (v, db1, w1) = (r2, v2, db2, w2)" by (metis prod_cases4)
    have "db' = db2" "w' = w2"
      using assms(3) False unfolding mmrp_recv_vector_def Let_def rla prod.case v option.case rv by auto
    then show ?thesis
      using mmrp_recv_keeps_trans [OF K1 mmrp_recv_events_keep [OF assms(1) inv rv]] by simp
  qed
qed

lemma mmrp_recv_vectors_keeps:
  assumes "timers_ok env" "mmrp_inv db" "mmrp_recv_vectors env sock buf eof src t p saw db w = (r, saw', db', w')"
  shows "mmrp_recv_keeps db w db' w'"
  using assms(2,3)
proof (induction "length buf - p" arbitrary: p saw db w rule: less_induct)
  case less
  note unf = less.prems(2) [unfolded mmrp_recv_vectors.simps [of env sock buf eof src t p]]
  note refl = mmrp_recv_keeps_refl [OF less.prems(1) extends_refl]
  show ?case
  proof (cases "rd16 buf p")
    case None
    then show ?thesis using unf refl by simp
  next
    case (Some h)
    obtain r1 s1 db1 w1 where v: "mmrp_recv_vector env sock buf eof src t p h saw db w = (r1, s1, db1, w1)"
      by (metis prod_cases4)
    note K = mmrp_recv_vector_keeps [OF assms(1) less.prems(1) v]
    show ?thesis
    proof (cases "h = 0 \<or> r1 = Goto \<or> r1 = Fault")
      case True
      then show ?thesis using unf Some v K refl by (auto split: if_splits)
    next
      case False
      then obtain u where r1: "r1 = Next u" by (cases r1) auto
      let ?p = "p + 2 + mmrp_firstlen t + numvectorbytes (unat (MRPDU_VECT_NUMVALUES h))"
      have rec: "mmrp_recv_vectors env sock buf eof src t ?p s1 db1 w1 = (r, saw', db', w')"
        using unf Some v r1 False by simp
      have "length buf - ?p < length buf - p" using Some by (auto simp: rd16_Some_iff)
      have "mmrp_inv db1" using K by (simp add: mmrp_recv_keeps_def)
      from mmrp_recv_keeps_trans [OF K less.hyps [OF \<open>length buf - ?p < _\<close> this rec]] show ?thesis .
    qed
  qed
qed

lemma mmrp_recv_messages_keeps:
  assumes "timers_ok env" "mmrp_inv db"
    and "mmrp_recv_messages env sock buf eof src p endmarks saw db w = (r, db', w')"
  shows "mmrp_recv_keeps db w db' w'"
  using assms(2,3)
proof (induction "eof - p" arbitrary: p endmarks saw db w rule: less_induct)
  case less
  note unf = less.prems(2) [unfolded mmrp_recv_messages.simps [of env sock buf eof src p]]
  note refl = mmrp_recv_keeps_refl [OF less.prems(1) extends_refl]
  show ?case
  proof (cases "p + 2 < eof \<and> rd_bytes buf p 2 \<noteq> None")
    case False
    then show ?thesis using unf refl by (auto split: if_splits option.splits)
  next
    case True
    then obtain msg where m: "rd_bytes buf p 2 = Some msg" by auto
    obtain r1 s1 db1 w1 where v: "mmrp_recv_vectors env sock buf eof src (msg ! 0) (p + 2) saw db w = (r1, s1, db1, w1)"
      by (metis prod_cases4)
    note K = mmrp_recv_vectors_keeps [OF assms(1) less.prems(1) v]
    have IH: "mmrp_recv_keeps db w db' w'"
      if "mmrp_recv_messages env sock buf eof src q e s db2 w2 = (r, db', w')" "p < q"
        "mmrp_recv_keeps db w db2 w2" for q e s db2 w2
    proof -
      have "mmrp_inv db2" using that(3) by (simp add: mmrp_recv_keeps_def)
      moreover have "eof - q < eof - p" using that(2) True by auto
      ultimately show ?thesis using mmrp_recv_keeps_trans [OF that(3)] less.hyps [OF _ _ that(1)] by blast
    qed
    have adv: "r1 = Next q \<Longrightarrow> p < q" for q
      using mmrp_recv_vectors_advances [of env sock buf eof src "msg ! 0" "p + 2" saw db w q] v by simp
    show ?thesis
    proof (cases "msg ! 0 = 0 \<and> msg ! 1 = 0")
      case True
      then show ?thesis
        using unf \<open>p + 2 < eof \<and> _\<close> m refl IH [of "p + 2"] by (auto simp: Let_def split: if_splits)
    next
      case False
      then show ?thesis
        using unf \<open>p + 2 < eof \<and> _\<close> m refl v K adv IH
        by (cases r1) (auto simp: Let_def split: if_splits)
    qed
  qed
qed

lemma mmrp_recv_msg_keeps:
  assumes "timers_ok env" "mmrp_inv db" "mmrp_recv_msg env sock frame db w = (rc, db', w')"
  shows "mmrp_inv db' \<and> (\<exists>w1. extends w w1 \<and> (w' = w1 \<or> w' = crash w1)) \<and> clients (mrp_db db') = clients (mrp_db db) \<and>
    declared_set (attrib_list db') = declared_set (attrib_list db)"
proof -
  obtain r db1 w1 where m: "mmrp_recv_messages env sock (recv_buffer frame) (recv_count frame)
      (take 6 (drop 6 (recv_buffer frame))) 15 0 False db w = (r, db1, w1)"
    by (metis prod_cases3)
  note K = mmrp_recv_messages_keeps [OF assms(1,2) m]
  show ?thesis
    using assms(2,3) m K
    by (cases r) (auto simp: mmrp_recv_msg_def Let_def mmrp_recv_keeps_def split: if_splits)
qed


section \<open>Memory safety of reception\<close>

text \<open>
  The end of the frame is tested before the events of a vector are read, without the length of
  the FirstValue: a vector of addresses may be read up to eight bytes behind the frame.
\<close>

lemma mmrp_recv_evt_no_fault: "fst (mmrp_recv_evt env sock src c s) \<noteq> Fault"
  by (auto simp: mmrp_recv_evt_def Let_def split: prod.splits option.splits)

lemma mmrp_numvectorbytes_le: "numvectorbytes n \<le> n div 3 + 1"
  by (simp add: numvectorbytes_def)

lemma mmrp_firstlen_le: "mmrp_firstlen t \<le> 6"
  by (simp add: mmrp_firstlen_def)

lemma mmrp_recv_first_Some: "p + 6 \<le> length buf \<Longrightarrow> \<exists>v. mmrp_recv_first t buf p = Some v"
  using rd_bytes_Some [of p 6 buf] by (auto simp: mmrp_recv_first_def rd_def)

lemma mmrp_recv_vector_safe:
  assumes "eof + 8 \<le> length buf"
  shows "fst (mmrp_recv_vector env sock buf eof src t p h saw db w) \<noteq> Fault \<and>
    (\<forall>u. fst (mmrp_recv_vector env sock buf eof src t p h saw db w) = Next u \<longrightarrow>
       p + 2 + mmrp_firstlen t + numvectorbytes (unat (MRPDU_VECT_NUMVALUES h)) \<le> eof + 6)"
proof -
  let ?nv = "unat (MRPDU_VECT_NUMVALUES h)"
  obtain ok db1 w1 where rla: "(if MRPDU_VECT_LVA h \<and> (t = MMRP_SVCREQ_TYPE \<longrightarrow> \<not> saw)
      then mmrp_recv_leaveall env sock t db w else (True, db, w)) = (ok, db1, w1)" by (metis prod_cases3)
  show ?thesis
  proof (cases "\<not> ok \<or> ?nv = 0 \<or> eof \<le> p + 2 + ?nv div 3")
    case True
    then show ?thesis unfolding mmrp_recv_vector_def Let_def rla prod.case by auto
  next
    case False
    have le: "p + 2 + mmrp_firstlen t + numvectorbytes ?nv \<le> eof + 6"
      using False mmrp_numvectorbytes_le [of ?nv] mmrp_firstlen_le [of t] by linarith
    obtain v where v: "mmrp_recv_first t buf (p + 2) = Some v"
      using mmrp_recv_first_Some [of "p + 2" buf t] False assms by auto
    have "fst (recv_vector (mmrp_recv_evt env sock src) buf (p + 2 + mmrp_firstlen t)
        (Suc (numvectorbytes ?nv)) ?nv (v, db1, w1)) \<noteq> Fault"
      by (rule recv_vector_no_fault) (use mmrp_recv_evt_no_fault le assms in auto)
    then show ?thesis
      unfolding mmrp_recv_vector_def Let_def rla prod.case v option.case
      using False le by (auto simp del: recv_vector.simps split: prod.splits)
  qed
qed

lemma mmrp_recv_vectors_safe:
  assumes "eof + 8 \<le> length buf" "p \<le> eof + 6"
  shows "fst (mmrp_recv_vectors env sock buf eof src t p saw db w) \<noteq> Fault"
  using assms(2)
proof (induction "length buf - p" arbitrary: p saw db w rule: less_induct)
  case less
  obtain h where h: "rd16 buf p = Some h" using less.prems assms(1) by (auto simp: rd16_def rd_def)
  obtain r1 s1 db1 w1 where v: "mmrp_recv_vector env sock buf eof src t p h saw db w = (r1, s1, db1, w1)"
    by (metis prod_cases4)
  note S = mmrp_recv_vector_safe [OF assms(1), of env sock src t p h saw db w]
  let ?p = "p + 2 + mmrp_firstlen t + numvectorbytes (unat (MRPDU_VECT_NUMVALUES h))"
  have "length buf - ?p < length buf - p" using h by (auto simp: rd16_Some_iff)
  note IH = less.hyps [OF this]
  show ?case
    unfolding mmrp_recv_vectors.simps [of env sock buf eof src t p] h option.case v
    using S v IH by (cases r1) auto
qed

lemma mmrp_recv_messages_safe:
  assumes "eof + 8 \<le> length buf"
  shows "fst (mmrp_recv_messages env sock buf eof src p endmarks saw db w) \<noteq> Fault"
proof (induction "eof - p" arbitrary: p endmarks saw db w rule: less_induct)
  case less
  show ?case
  proof (cases "p + 2 < eof")
    case False
    then show ?thesis by (simp add: mmrp_recv_messages.simps [of env sock buf eof src p])
  next
    case True
    obtain msg where m: "rd_bytes buf p 2 = Some msg" using rd_bytes_Some [of p 2 buf] True assms by auto
    obtain r1 s1 db1 w1 where v: "mmrp_recv_vectors env sock buf eof src (msg ! 0) (p + 2) saw db w = (r1, s1, db1, w1)"
      by (metis prod_cases4)
    have S: "r1 \<noteq> Fault" using mmrp_recv_vectors_safe [OF assms, of "p + 2" env sock src "msg ! 0" saw db w] True v by simp
    have A: "r1 = Next q \<Longrightarrow> p + 2 \<le> q" for q
      using mmrp_recv_vectors_advances [of env sock buf eof src "msg ! 0" "p + 2" saw db w q] v by simp
    have IH: "fst (mmrp_recv_messages env sock buf eof src q e s d w1) \<noteq> Fault" if "p < q" for q e s d w1
      using less.hyps [of q] that True by auto
    show ?thesis
      unfolding mmrp_recv_messages.simps [of env sock buf eof src p] m option.case Let_def v
      using True S A by (cases r1) (auto simp: IH)
  qed
qed

end
