(* ===== verification/Mmrp_Runs.thy ===== *)
theory Mmrp_Runs
  imports Mmrp_Recv
begin

text \<open>
  All inputs of MMRP taken together: client commands, timers, received frames, garbage
  collection. The invariant holds along every run, and the declared services and addresses
  refine the commands of the clients.
\<close>

section \<open>Commands of clients\<close>

text \<open>The value a command is about, if it can be parsed, and what the command does to the declarations.\<close>

definition mmrp_cmd_value :: "string \<Rightarrow> mmrp_value option" where
  "mmrp_cmd_value buf =
     (if buf ! 4 = CHR ''S''
      then (case mmrp_cmd_parse_service buf of (rc, s) \<Rightarrow> if rc \<noteq> 0 then None else Some (SVCREQ s))
      else (case mmrp_cmd_parse_mac buf of (rc, m) \<Rightarrow> if rc \<noteq> 0 then None else Some (MACVEC m)))"

definition mmrp_cmd_effect :: "string \<Rightarrow> mmrp_value set \<Rightarrow> mmrp_value set" where
  "mmrp_cmd_effect buf D =
     (if take 5 buf \<in> {''M--:S'', ''M--:M''} then D - set_option (mmrp_cmd_value buf)
      else if take 5 buf \<in> {''M++:S'', ''M+?:S'', ''M++:M'', ''M+?:M''} then D \<union> set_option (mmrp_cmd_value buf)
      else D)"

text \<open>The two kinds of commands, once the value is parsed.\<close>

definition mmrp_value_cmd ::
  "os \<Rightarrow> int \<Rightarrow> mmrp_value option \<Rightarrow> mrp_event \<Rightarrow> string \<Rightarrow> sockaddr_in \<Rightarrow> mmrp_database \<Rightarrow> world \<Rightarrow>
     int \<times> mmrp_database \<times> world" where
  "mmrp_value_cmd env sock v event buf client db w =
     (case v of
        None \<Rightarrow> (-1, db, respond env client 12 (''ERP '' @ c_string buf) w)
      | Some k \<Rightarrow>
          (case mmrp_alloc env w of
             (None, w1) \<Rightarrow> (-1, db, respond env client 12 (''ERI '' @ c_string buf) w1)
           | (Some a, w1) \<Rightarrow>
               let (_, db', w') = mmrp_event env sock event (Some (a\<lparr>attribute := k\<rparr>)) db w1
               in (0, db', w')))"

lemma mmrp_service_cmd_value:
  "buf ! 4 = CHR ''S'' \<Longrightarrow> mmrp_service_cmd env sock e buf c db w = mmrp_value_cmd env sock (mmrp_cmd_value buf) e buf c db w"
  by (auto simp: mmrp_service_cmd_def mmrp_value_cmd_def mmrp_cmd_value_def mmrp_cmd_service_def Let_def
      split: prod.splits option.splits)

lemma mmrp_mac_cmd_value:
  "buf ! 4 = CHR ''M'' \<Longrightarrow> mmrp_mac_cmd env sock e buf c db w = mmrp_value_cmd env sock (mmrp_cmd_value buf) e buf c db w"
  by (auto simp: mmrp_mac_cmd_def mmrp_value_cmd_def mmrp_cmd_value_def mmrp_cmd_mac_def Let_def
      split: prod.splits option.splits)

lemma mmrp_value_cmd_step:
  assumes "mmrp_value_cmd env sock v e buf client db w = (rc, db', w')" "timers_ok env" "mmrp_inv db"
    and e: "e \<in> {MRP_EVENT_LV, MRP_EVENT_JOIN, MRP_EVENT_NEW}"
  shows "mmrp_inv db' \<and> extends w w' \<and> clients (mrp_db db') = clients (mrp_db db) \<and>
    (malloc_ok env \<longrightarrow> declared_set (attrib_list db') =
      (if e = MRP_EVENT_LV then declared_set (attrib_list db) - set_option v
       else declared_set (attrib_list db) \<union> set_option v))"
proof (cases v)
  case None
  then show ?thesis using assms(1,3) by (auto simp: mmrp_value_cmd_def)
next
  case (Some k)
  obtain o1 w1 where al: "mmrp_alloc env w = (o1, w1)" by (metis prod.exhaust)
  note A = mmrp_alloc_step [OF al]
  show ?thesis
  proof (cases o1)
    case None
    have "extends w (respond env client 12 m w1)" for m using A extends_trans extends_respond by meson
    then show ?thesis using assms(1,3) al A None Some by (auto simp: mmrp_value_cmd_def)
  next
    case (Some a)
    let ?a = "(fresh_attribute (SVCREQ 0))\<lparr>attribute := k\<rparr>"
    obtain r1 db1 w2 where ev: "mmrp_event env sock e (Some ?a) db w1 = (r1, db1, w2)" by (metis prod_cases3)
    have res: "db' = db1" "w' = w2" using assms(1) al A Some ev \<open>v = Some k\<close> by (simp_all add: mmrp_value_cmd_def)
    have ea: "e \<in> attrib_events" "e \<noteq> MRP_EVENT_LVATIMER" using e by (auto simp: attrib_events_def)
    have E: "mmrp_inv db1 \<and> extends w1 w2 \<and> clients (mrp_db db1) = clients (mrp_db db) \<and>
        declared_set (attrib_list db1) = declared_spec e (Some ?a) (declared_set (attrib_list db))"
      using mmrp_event_ok [OF ev assms(2,3)] ea by auto
    moreover have "extends w w2" using E A extends_trans by meson
    ultimately show ?thesis
      using e \<open>v = Some k\<close> by (elim insertE) (simp_all add: res declared_spec_def)
  qed
qed

lemma take_5_Cons: "take 5 xs = [a, b, c, d, e] \<Longrightarrow> 5 \<le> length xs \<and> xs ! 0 = a \<and> xs ! 4 = e \<and> take 3 xs = [a, b, c]"
proof -
  assume t: "take 5 xs = [a, b, c, d, e]"
  then have "length (take 5 xs) = 5" by simp
  then have "5 \<le> length xs" by simp
  moreover have "xs ! 0 = take 5 xs ! 0" "xs ! 4 = take 5 xs ! 4" by simp_all
  moreover have "take 3 xs = take 3 (take 5 xs)" by simp
  ultimately show ?thesis using t by simp
qed

lemma mmrp_inv_clients [simp]: "mmrp_inv (db\<lparr>mrp_db := (mrp_db db)\<lparr>clients := cs\<rparr>\<rparr>) = mmrp_inv db"
  by (simp add: app_inv_def lv_ok_def lv_ok1_def)

text \<open>A command either works on a value, or changes the clients and the world only.\<close>

lemma mmrp_recv_cmd_cases:
  assumes "mmrp_recv_cmd env sock buf client (Some db) w = (rc, d', w')"
    and "mrp_client_add env (clients (mrp_db db)) client w = (r1, cs, w1)"
  defines "db1 \<equiv> db\<lparr>mrp_db := (mrp_db db)\<lparr>clients := cs\<rparr>\<rparr>"
  obtains (lv) db2 where "take 5 buf \<in> {''M--:S'', ''M--:M''}" "d' = Some db2"
      "mmrp_value_cmd env sock (mmrp_cmd_value buf) MRP_EVENT_LV buf client db1 w1 = (rc, db2, w')"
    | (join) e db2 where "take 5 buf \<in> {''M++:S'', ''M+?:S'', ''M++:M'', ''M+?:M''}" "d' = Some db2"
      "e \<in> {MRP_EVENT_JOIN, MRP_EVENT_NEW}"
      "mmrp_value_cmd env sock (mmrp_cmd_value buf) e buf client db1 w1 = (rc, db2, w')"
    | (other) "d' = Some db1" "\<And>D. mmrp_cmd_effect buf D = D"
      "w' = w1 \<or> (\<exists>m. w' = respond env client 12 m w1) \<or> (take 3 buf = ''M??'' \<and> w' = snd (mmrp_dumptable env client db1 w1))"
proof -
  let ?e = "if buf ! 2 = CHR ''?'' then MRP_EVENT_JOIN else MRP_EVENT_NEW"
  consider (lvS) "take 5 buf = ''M--:S''" | (lvM) "take 5 buf = ''M--:M''"
    | (jS) "take 5 buf = ''M++:S'' \<or> take 5 buf = ''M+?:S''" | (jM) "take 5 buf = ''M++:M'' \<or> take 5 buf = ''M+?:M''"
    | (none) "take 5 buf \<notin> {''M--:S'', ''M--:M'', ''M++:S'', ''M+?:S'', ''M++:M'', ''M+?:M''}" by blast
  then show thesis
  proof cases
    case lvS
    note t = take_5_Cons [OF lvS]
    show thesis
      using assms lvS t lv mmrp_service_cmd_value [of buf env sock MRP_EVENT_LV client db1 w1]
      by (auto simp: mmrp_recv_cmd_def Let_def split: prod.splits)
  next
    case lvM
    note t = take_5_Cons [OF lvM]
    show thesis
      using assms lvM t lv mmrp_mac_cmd_value [of buf env sock MRP_EVENT_LV client db1 w1]
      by (auto simp: mmrp_recv_cmd_def Let_def split: prod.splits)
  next
    case jS
    have t: "5 \<le> length buf" "buf ! 0 = CHR ''M''" "buf ! 4 = CHR ''S''" "take 3 buf \<noteq> ''M??''"
      using jS by (auto dest!: take_5_Cons)
    show thesis
      using assms jS t join [of _ ?e] mmrp_service_cmd_value [OF t(3), of env sock ?e client db1 w1]
      by (auto simp: mmrp_recv_cmd_def Let_def split: prod.splits)
  next
    case jM
    have t: "5 \<le> length buf" "buf ! 0 = CHR ''M''" "buf ! 4 = CHR ''M''" "take 3 buf \<noteq> ''M??''"
      using jM by (auto dest!: take_5_Cons)
    show thesis
      using assms jM t join [of _ ?e] mmrp_mac_cmd_value [OF t(3), of env sock ?e client db1 w1]
      by (auto simp: mmrp_recv_cmd_def Let_def split: prod.splits)
  next
    case none
    show thesis
      using assms none other by (auto simp: mmrp_recv_cmd_def mmrp_cmd_effect_def Let_def split: if_splits prod.splits)
  qed
qed

lemma mmrp_recv_cmd_step:
  assumes "mmrp_recv_cmd env sock buf client (Some db) w = (rc, d', w')" "timers_ok env" "mmrp_inv db"
  shows "\<exists>db'. d' = Some db' \<and> mmrp_inv db' \<and>
    (malloc_ok env \<longrightarrow> declared_set (attrib_list db') = mmrp_cmd_effect buf (declared_set (attrib_list db)))"
proof -
  obtain r1 cs w1 where c: "mrp_client_add env (clients (mrp_db db)) client w = (r1, cs, w1)" by (metis prod_cases3)
  let ?db = "db\<lparr>mrp_db := (mrp_db db)\<lparr>clients := cs\<rparr>\<rparr>"
  have inv: "mmrp_inv ?db" using assms(3) by simp
  from assms(1) c show ?thesis
  proof (cases rule: mmrp_recv_cmd_cases)
    case (lv db2)
    then show ?thesis using mmrp_value_cmd_step [OF lv(3) assms(2) inv] by (simp add: mmrp_cmd_effect_def)
  next
    case (join e db2)
    then have "take 5 buf \<notin> {''M--:S'', ''M--:M''}" by auto
    with join show ?thesis
      using mmrp_value_cmd_step [OF join(4) assms(2) inv] by (auto simp: mmrp_cmd_effect_def)
  next
    case other
    then show ?thesis using inv by simp
  qed
qed


section \<open>All inputs of the protocol\<close>

fun mmrp_exec :: "os \<Rightarrow> int \<Rightarrow> mmrp_database option \<times> world \<Rightarrow> mrp_input \<Rightarrow> mmrp_database option \<times> world" where
  "mmrp_exec env sock (None, w) i = (None, w)"
| "mmrp_exec env sock (Some db, w) In_join_timer =
     (let (_, db', w') = mmrp_event env sock MRP_EVENT_TX None db w in (Some db', w'))"
| "mmrp_exec env sock (Some db, w) In_leave_timer =
     (let (_, db', w') = mmrp_event env sock MRP_EVENT_LVTIMER None db w in (Some db', w'))"
| "mmrp_exec env sock (Some db, w) In_leaveall_timer =
     (let (_, db', w') = mmrp_event env sock MRP_EVENT_LVATIMER None db w in (Some db', w'))"
| "mmrp_exec env sock (Some db, w) In_periodic_timer =
     (let (_, db', w') = mmrp_event env sock MRP_EVENT_PERIODIC None db w in (Some db', w'))"
| "mmrp_exec env sock (Some db, w) (In_frame frame) =
     (let (_, db', w') = mmrp_recv_msg env sock frame db w in (Some db', w'))"
| "mmrp_exec env sock (Some db, w) (In_cmd buf client) =
     (let (_, d', w') = mmrp_recv_cmd env sock buf client (Some db) w in (d', w'))"
| "mmrp_exec env sock (Some db, w) In_reclaim =
     (let (_, d', w') = mmrp_reclaim env (Some db) w in (d', w'))"
| "mmrp_exec env sock (Some db, w) (In_bye client) = (mmrp_bye client (Some db), w)"

definition mmrp_run ::
  "os \<Rightarrow> int \<Rightarrow> mmrp_database option \<times> world \<Rightarrow> mrp_input list \<Rightarrow> mmrp_database option \<times> world" where
  "mmrp_run env sock = foldl (mmrp_exec env sock)"

text \<open>Specification: only commands of clients change what is declared.\<close>

fun mmrp_input_spec :: "mmrp_value set \<Rightarrow> mrp_input \<Rightarrow> mmrp_value set" where
  "mmrp_input_spec D (In_cmd buf client) = mmrp_cmd_effect buf D"
| "mmrp_input_spec D _ = D"

definition mmrp_declared :: "mmrp_database option \<Rightarrow> mmrp_value set" where
  "mmrp_declared d = (case d of None \<Rightarrow> {} | Some db \<Rightarrow> declared_set (attrib_list db))"

lemma mmrp_event_None_ok:
  assumes "timers_ok env" "mmrp_inv db" "e \<notin> insert MRP_EVENT_RLA attrib_events"
  shows "\<exists>rc db' w'. mmrp_event env sock e None db w = (rc, db', w') \<and> mmrp_inv db' \<and>
    declared_set (attrib_list db') = declared_set (attrib_list db) \<and>
    ((e = MRP_EVENT_LVATIMER \<longrightarrow> mmrp_room (map attribute (attrib_list db))) \<longrightarrow> extends w w')"
proof -
  obtain rc db' w' where ev: "mmrp_event env sock e None db w = (rc, db', w')" by (metis prod_cases3)
  show ?thesis using mmrp_event_ok [OF ev assms(1,2)] ev by (auto simp: declared_spec_def)
qed

lemma mmrp_inv_filter: "mmrp_inv db \<Longrightarrow> mmrp_inv (db\<lparr>attrib_list := filter P (attrib_list db)\<rparr>)"
  by (simp add: app_inv_alt list_core_filter)

lemma mmrp_exec_step:
  assumes "timers_ok env" "mmrp_inv db"
  shows "\<exists>db' w'. mmrp_exec env sock (Some db, w) i = (Some db', w') \<and> mmrp_inv db' \<and>
    (malloc_ok env \<longrightarrow> declared_set (attrib_list db') = mmrp_input_spec (declared_set (attrib_list db)) i)"
proof (cases i)
  case (In_frame f)
  obtain rc db' w' where m: "mmrp_recv_msg env sock f db w = (rc, db', w')" by (metis prod_cases3)
  show ?thesis using mmrp_recv_msg_keeps [OF assms m] m In_frame by simp
next
  case (In_cmd buf c)
  obtain rc d' w' where m: "mmrp_recv_cmd env sock buf c (Some db) w = (rc, d', w')" by (metis prod_cases3)
  show ?thesis using mmrp_recv_cmd_step [OF m assms] m In_cmd by auto
next
  case In_reclaim
  obtain as w' where m: "mmrp_reclaim_list env (clients (mrp_db db)) (attrib_list db) w = (as, w')"
    by (metis prod.exhaust)
  show ?thesis
    using mmrp_reclaim_list_step [OF m] m In_reclaim assms(2)
    by (simp add: mmrp_reclaim_def mmrp_inv_filter declared_set_reclaim)
next
  case (In_bye c)
  then show ?thesis using assms(2) by (simp add: mmrp_bye_def)
next
  case In_join_timer
  then show ?thesis using mmrp_event_None_ok [OF assms, of MRP_EVENT_TX sock w] by (auto simp: attrib_events_def)
next
  case In_leave_timer
  then show ?thesis using mmrp_event_None_ok [OF assms, of MRP_EVENT_LVTIMER sock w] by (auto simp: attrib_events_def)
next
  case In_leaveall_timer
  then show ?thesis using mmrp_event_None_ok [OF assms, of MRP_EVENT_LVATIMER sock w] by (auto simp: attrib_events_def)
next
  case In_periodic_timer
  then show ?thesis using mmrp_event_None_ok [OF assms, of MRP_EVENT_PERIODIC sock w] by (auto simp: attrib_events_def)
qed

interpretation mmrp_inputs: input_system mmrp_exec mmrp_inv "\<lambda>db. declared_set (attrib_list db)" mmrp_input_spec
  by unfold_locales (rule mmrp_exec_step)

lemma mmrp_init_step:
  assumes "mmrp_init env True w = (rc, sock, Some db, w')"
  shows "mmrp_inv db \<and> attrib_list db = []"
proof -
  have "mmrp_ordered []" by (simp add: mmrp_ordered_def)
  then show ?thesis
    using assms
    by (auto simp: mmrp_init_def app_inv_def keys_sorted_def lv_ok_def Let_def split: if_splits prod.splits)
qed


lemma mmrp_init_example: "\<exists>db0 w1. mmrp_init example_os True boot_world = (0, 3, Some db0, w1)"
  by (simp add: mmrp_init_def mrpd_init_protocol_socket_def boot_world_def Let_def example_os_def
      call_os_def malloc_def mrpd_init_timers_def mrpd_timer_create_def split: prod.splits)

definition mmrp_cmd_example :: "string \<Rightarrow> string" where
  "mmrp_cmd_example cmd = cmd @ [CHR 0x00]"

lemma unpack_bytes_example: "unpack_bytes 6 1108152157446 = [1, 2, 3, 4, 5, 6]"
  by code_simp

lemma mmrp_effect_examples:
  "mmrp_cmd_effect (mmrp_cmd_example ''M++:S=1'') D = insert (SVCREQ 1) D"
  "mmrp_cmd_effect (mmrp_cmd_example ''M--:S=1'') D = D - {SVCREQ 1}"
  "mmrp_cmd_effect (mmrp_cmd_example ''M+?:M=010203040506'') D = insert (MACVEC [1, 2, 3, 4, 5, 6]) D"
  by (simp_all add: mmrp_cmd_effect_def mmrp_cmd_value_def mmrp_cmd_parse_service_def mmrp_cmd_parse_mac_def
      mmrp_cmd_example_def parse_eval unpack_bytes_example)


text \<open>
  C18: The services and MAC addresses a participant declares are those its clients asked for:
  after any sequence of inputs, the set of values whose applicant declares is what
  \<^verbatim>\<open>M++\<close>, \<^verbatim>\<open>M+?\<close> (insert) and \<^verbatim>\<open>M--\<close> (remove) make of the empty set; timers, received
  frames, garbage collection and disconnecting clients do not change it.
\<close>

theorem mmrp_refines_declared_values:
  assumes "timers_ok env" "malloc_ok env" "mmrp_init env True w0 = (rc, sock, Some db0, w1)"
  shows "mmrp_declared (fst (mmrp_run env sock (Some db0, w1) ins)) = foldl mmrp_input_spec {} ins"
proof -
  have "declared_set (attrib_list db0) = {}"
    using mmrp_init_step [OF assms(3)] by (simp add: declared_set_def)
  then show ?thesis
    using mmrp_inputs.run_step [OF assms(1), of db0 sock w1 ins] mmrp_init_step [OF assms(3)] assms(2)
    by (auto simp: mmrp_run_def mmrp_declared_def)
qed

theorem mmrp_refines_declared_values_witness:
  "\<exists>db0 w1. mmrp_init example_os True boot_world = (0, 3, Some db0, w1) \<and>
     mmrp_declared (fst (mmrp_run example_os 3 (Some db0, w1)
       [In_cmd (mmrp_cmd_example ''M++:S=1'') example_client, In_join_timer,
        In_cmd (mmrp_cmd_example ''M+?:M=010203040506'') example_client, In_leaveall_timer,
        In_cmd (mmrp_cmd_example ''M--:S=1'') example_client])) = {MACVEC [1, 2, 3, 4, 5, 6]}"
proof -
  obtain db0 w1 where i: "mmrp_init example_os True boot_world = (0, 3, Some db0, w1)"
    using mmrp_init_example by blast
  show ?thesis
    by (intro exI conjI, rule i)
      (auto simp: mmrp_refines_declared_values [OF timers_ok_example malloc_ok_example i] mmrp_effect_examples)
qed

end
