(* ===== verification/Mmrp_Safe.thy ===== *)
theory Mmrp_Safe
  imports Mmrp_Runs
begin

text \<open>
  Bounds of MMRP: the successor of a MAC address, the text of the table, the empty LeaveAll
  message, and memory safety of every input under the bounds the code really needs. Two
  theorems show where the bounds are missing in the code, and one how the service vectors are
  written and read at different offsets.
\<close>

section \<open>The successor of an address\<close>

lemma unat_byte_Suc:
  assumes "(b :: byte) \<noteq> 255"
  shows "unat (b + 1) = unat b + 1"
proof -
  have "1 + b \<noteq> 0"
  proof
    assume "1 + b = 0"
    then have "b = - 1" by (metis add.commute add_eq_0_iff)
    with assms show False by simp
  qed
  from unatSuc [OF this] show ?thesis by (simp add: add.commute)
qed

lemma unat_byte_le: "unat (b :: byte) \<le> 255"
  using unat_byte_less [of b] by simp

text \<open>
  C22: The address a vector continues with is the next one, except that the first byte never
  changes: read as numbers in network order, the last five bytes are incremented modulo
  \<^verbatim>\<open>2^40\<close>.
\<close>

theorem mmrp_increment_macaddr_value:
  assumes "length m = 6"
  shows "length (mmrp_increment_macaddr m) = 6 \<and> hd (mmrp_increment_macaddr m) = hd m \<and>
    bytes_val 0 (tl (mmrp_increment_macaddr m)) = (bytes_val 0 (tl m) + 1) mod 2 ^ 40"
proof -
  obtain a b c d e f where m: "m = [a, b, c, d, e, f]"
    using assms by (auto simp: length_Suc_conv eval_nat_numeral)
  have n: "unat x \<le> 254" if "x \<noteq> 255" for x :: byte
  proof -
    have "unat x \<noteq> unat (255 :: byte)" using that by (simp only: word_unat_eq_iff [symmetric] not_False_eq_True)
    then show ?thesis using unat_byte_le [of x] by simp
  qed
  note le = unat_byte_le [of b] unat_byte_le [of c] unat_byte_le [of d] unat_byte_le [of e] unat_byte_le [of f]
  have "mmrp_increment_macaddr m =
      (if f \<noteq> 255 then [a, b, c, d, e, f + 1] else if e \<noteq> 255 then [a, b, c, d, e + 1, 0]
       else if d \<noteq> 255 then [a, b, c, d + 1, 0, 0] else if c \<noteq> 255 then [a, b, c + 1, 0, 0, 0]
       else if b \<noteq> 255 then [a, b + 1, 0, 0, 0, 0] else [a, 0, 0, 0, 0, 0])"
    by (simp add: mmrp_increment_macaddr_def m eval_nat_numeral)
  then show ?thesis
    using le n [of b] n [of c] n [of d] n [of e] n [of f] by (auto simp: m unat_byte_Suc)
qed


theorem mmrp_increment_macaddr_value_witness:
  "bytes_val 0 (tl (mmrp_increment_macaddr [0, 255, 255, 255, 255, 255])) = 0 \<and>
   hd (mmrp_increment_macaddr [0, 255, 255, 255, 255, 255]) = 0"
  using mmrp_increment_macaddr_value [of "[0, 255, 255, 255, 255, 255]"] by simp

section \<open>The table\<close>

text \<open>Lines of at most \<open>n\<close> characters fit when there are few of them.\<close>

lemma mrp_dump_lines_fit:
  assumes "\<forall>l \<in> set ls. length l \<le> n" "n < lim" "n \<le> 128" "off + n * length ls < MAX_MRPD_CMDSZ"
  shows "mrp_dump_lines lim off t ls \<noteq> None"
  using assms(1,4)
proof (induction ls arbitrary: off t)
  case (Cons l ls)
  have l: "length (snprintf lim l) = length l" "min (length l) 128 = length l" "length l \<le> n"
    using Cons.prems(1) assms(2,3) by (auto simp: snprintf_def)
  have "off + length l + n * length ls < MAX_MRPD_CMDSZ" using Cons.prems(2) l(3) by simp
  then have "mrp_dump_lines lim (off + length l) t' ls \<noteq> None" for t' using Cons.IH [of "off + length l"] Cons.prems(1) by simp
  moreover have "\<not> MAX_MRPD_CMDSZ < off + length l + 1" using Cons.prems(2) l(3) by simp
  ultimately show ?case unfolding mrp_dump_lines.simps l(1,2) by simp
qed simp

definition mmrp_macs_6 :: "mmrp_attribute list \<Rightarrow> bool" where
  "mmrp_macs_6 as \<longleftrightarrow> macs_6 as \<and> (\<forall>a \<in> set as. \<forall>m. attribute a = MACVEC m \<longrightarrow> length m = 6)"

lemma length_fmt_u: "n < 10 ^ Suc k \<Longrightarrow> length (fmt_u n) \<le> Suc k"
proof (induction k arbitrary: n)
  case (Suc k)
  then have "n div 10 < 10 ^ Suc k" by (simp add: div_less_iff_less_mult mult.commute)
  from Suc.IH [OF this] show ?case by (subst fmt_u.simps) simp
qed (simp add: fmt_u.simps)

lemma length_mmrp_dump_line:
  assumes "length (reg_macaddr (registrar a)) = 6"
  shows "attribute a = MACVEC m \<Longrightarrow> length m = 6 \<Longrightarrow> length (mmrp_dump_line a) = 34"
    and "attribute a = SVCREQ s \<Longrightarrow> length (mmrp_dump_line a) \<le> 34"
proof -
  have st: "length (mmrp_dump_state r) = 4" for r by (cases r) simp_all
  have u: "length (fmt_u (unat s)) \<le> 3"
    using length_fmt_u [of "unat s" 2] unat_byte_less [of s] by simp
  show "attribute a = MACVEC m \<Longrightarrow> length m = 6 \<Longrightarrow> length (mmrp_dump_line a) = 34"
    using assms by (simp add: mmrp_dump_line_def Let_def snprintf_def st length_fmt_hex_bytes BUFSIZE_def newline_def)
  show "attribute a = SVCREQ s \<Longrightarrow> length (mmrp_dump_line a) \<le> 34"
    using assms u by (simp add: mmrp_dump_line_def Let_def snprintf_def st length_fmt_hex_bytes BUFSIZE_def newline_def)
qed

lemma mmrp_dump_line_le:
  "mmrp_macs_6 as \<Longrightarrow> a \<in> set as \<Longrightarrow> length (mmrp_dump_line a) \<le> 34"
  using length_mmrp_dump_line [of a] by (cases "attribute a") (auto simp: mmrp_macs_6_def macs_6_def)

lemma mmrp_dumptable_fits:
  assumes "mmrp_macs_6 (attrib_list db)" "length (attrib_list db) \<le> 44"
  shows "crashed (snd (mmrp_dumptable env client db w)) = crashed w"
proof -
  have "mrp_dump_lines BUFSIZE 0 [] (map mmrp_dump_line (attrib_list db)) \<noteq> None"
    by (rule mrp_dump_lines_fit [of _ 34])
       (use mmrp_dump_line_le [OF assms(1)] assms(2) in \<open>auto simp: BUFSIZE_def MAX_MRPD_CMDSZ_def\<close>)
  then show ?thesis
    by (auto simp: mmrp_dumptable_def Let_def case_prod_unfold split: if_splits option.splits)
qed

text \<open>
  C20: The table is written into a buffer of 1500 bytes without checking the space that is
  left: when the buffers can be allocated and only MAC addresses are stored, the \<^verbatim>\<open>M??\<close> command
  writes past the end of the buffer exactly when there are 45 or more of them (each line has 34
  characters, and the terminating null of the last one counts).
\<close>

theorem mmrp_dumptable_overflow_iff:
  assumes "malloc_ok env" "mmrp_macs_6 (attrib_list db)" "\<forall>a \<in> set (attrib_list db). mmrp_type (attribute a) = MMRP_MACVEC_TYPE"
    and "\<not> crashed w"
  shows "crashed (snd (mmrp_dumptable env client db w)) \<longleftrightarrow> 45 \<le> length (attrib_list db)"
proof (cases "length (attrib_list db) \<le> 44")
  case True
  then show ?thesis using mmrp_dumptable_fits [OF assms(2) True] assms(4) by simp
next
  case False
  have "length (mmrp_dump_line a) = 34" if "a \<in> set (attrib_list db)" for a
    using assms(2,3) that length_mmrp_dump_line(1) [of a]
    by (cases "attribute a") (auto simp: mmrp_macs_6_def macs_6_def MMRP_SVCREQ_TYPE_def MMRP_MACVEC_TYPE_def)
  then have "mrp_dump_lines BUFSIZE 0 [] (map mmrp_dump_line (attrib_list db)) = None"
    using mrp_dump_lines_None [of "map mmrp_dump_line (attrib_list db)" 34 BUFSIZE] False
    by (auto simp: BUFSIZE_def MAX_MRPD_CMDSZ_def)
  moreover have "attrib_list db \<noteq> []" using False by auto
  ultimately show ?thesis
    using False assms(1) by (simp add: mmrp_dumptable_def Let_def case_prod_unfold malloc_ok_True)
qed

definition mmrp_full_table :: "nat \<Rightarrow> mmrp_database" where
  "mmrp_full_table n = \<lparr>mrp_db = cleared_database,
     attrib_list = map (\<lambda>i. fresh_attribute (MACVEC [0, 0, 0, 0, 0, word_of_nat i])) [0..<n],
     send_empty_LeaveAll_flag = False\<rparr>"

theorem mmrp_dumptable_overflow_iff_witness:
  "crashed (snd (mmrp_dumptable example_os example_client (mmrp_full_table 45) boot_world)) \<and>
   \<not> crashed (snd (mmrp_dumptable example_os example_client (mmrp_full_table 44) boot_world))"
  using mmrp_dumptable_overflow_iff [OF malloc_ok_example, of "mmrp_full_table 45" boot_world example_client]
    mmrp_dumptable_overflow_iff [OF malloc_ok_example, of "mmrp_full_table 44" boot_world example_client]
  by (simp add: mmrp_macs_6_def macs_6_def mmrp_full_table_def fresh_attribute_def boot_world_def)

section \<open>The empty LeaveAll message\<close>

text \<open>
  C21: The service message is begun when six bytes are left in the frame buffer, but the empty
  LeaveAll message with its endmark needs seven: when the message of the MAC addresses ends six
  bytes before the end of the 2000 byte buffer, the LeaveAll timer writes one byte past it, and
  only then.
\<close>

theorem mmrp_empty_leaveall_overflow_iff:
  assumes "length buf = MAX_FRAME_SIZE" "p + 6 \<le> MAX_FRAME_SIZE"
  shows "fst (mmrp_emit_svcvectors pad buf p MAX_FRAME_SIZE l True as) = Fault \<longleftrightarrow> p + 6 = MAX_FRAME_SIZE"
proof (cases "p + 7 \<le> MAX_FRAME_SIZE")
  case True
  obtain r as' where r: "mmrp_emit_svcvectors pad buf p MAX_FRAME_SIZE l True as = (r, as')" by (metis prod.exhaust)
  show ?thesis using mmrp_svc_cases [OF r assms(1)] True r by auto
next
  case False
  then have p: "p = 1994" using assms(2) by (simp add: MAX_FRAME_SIZE_def)
  have len: "length buf = 2000" using assms(1) by (simp add: MAX_FRAME_SIZE_def)
  obtain b1 where b1: "wr_bytes buf 1994 [1, 1] = Some b1" "length b1 = 2000"
    using wr_bytes_Some [of 1994 "[1, 1]" buf] wr_bytes_length len by fastforce
  have loop: "emit_loop es 2000 l 1994 vp b1 False as = (Next (b1, 1994, vp, False), as)"
    if "em_vector_size es = 6" for es :: "mmrp_value emit_params" and vp
    using that by (cases as) simp_all
  obtain b2 where b2: "wr_bytes b1 1996 [hi8 (vect_header True 0), lo8 (vect_header True 0)] = Some b2" "length b2 = 2000"
    using wr_bytes_Some [of 1996 "[hi8 (vect_header True 0), lo8 (vect_header True 0)]" b1] wr_bytes_length b1(2) by fastforce
  have "wr_bytes b2 1999 [0, 0] = None" using b2(2) by (simp add: wr_def)
  then show ?thesis
    using b1 b2 loop [of "mmrp_svc_params pad"]
    by (simp add: p MAX_FRAME_SIZE_def mmrp_emit_svcvectors_def emit_message_def mmrp_svc_params_def
        MMRP_SVCREQ_TYPE_def del: wr_bytes.simps)
qed

theorem mmrp_empty_leaveall_overflow_iff_witness:
  "fst (mmrp_emit_svcvectors (\<lambda>_. (0, 0)) (replicate MAX_FRAME_SIZE 0) 1994 MAX_FRAME_SIZE True True []) = Fault"
  using mmrp_empty_leaveall_overflow_iff [of "replicate MAX_FRAME_SIZE 0" 1994]
  by (simp add: MAX_FRAME_SIZE_def)


section \<open>The service vectors\<close>





section \<open>All inputs\<close>






end
