(* ===== verification/Eui64set.thy ===== *)
theory Eui64set
  imports Parse "HOL-Library.Multiset"
begin

text \<open>
  Sets of stream and end station identifiers (\<^verbatim>\<open>daemons/common/eui64set.c\<close>): an array kept
  sorted with \<^verbatim>\<open>qsort\<close> and searched with \<^verbatim>\<open>bsearch\<close>. The two library functions are
  modelled as the C library implements them, a stable merge sort and a bisection.
  The operations refine the multiset of the stored values.
\<close>

section \<open>Identifiers in network order\<close>

definition eui64_read :: "bytes \<Rightarrow> u64" where
  "eui64_read b =
     push_bit 56 (ucast (b ! 0)) + push_bit 48 (ucast (b ! 1)) + push_bit 40 (ucast (b ! 2)) +
     push_bit 32 (ucast (b ! 3)) + push_bit 24 (ucast (b ! 4)) + push_bit 16 (ucast (b ! 5)) +
     push_bit 8 (ucast (b ! 6)) + push_bit 0 (ucast (b ! 7))"

definition eui64_write :: "u64 \<Rightarrow> bytes" where
  "eui64_write v =
     [ucast (drop_bit 56 v AND 0xff), ucast (drop_bit 48 v AND 0xff), ucast (drop_bit 40 v AND 0xff),
      ucast (drop_bit 32 v AND 0xff), ucast (drop_bit 24 v AND 0xff), ucast (drop_bit 16 v AND 0xff),
      ucast (drop_bit 8 v AND 0xff), ucast (drop_bit 0 v AND 0xff)]"

section \<open>The set\<close>

text \<open>A pointer is a number, 0 the null pointer.\<close>

record eui64set_entry =
  eui64 :: u64
  entry_p :: nat

record eui64set =
  storage :: "eui64set_entry list option"   \<comment> \<open>\<open>None\<close>: the null pointer\<close>
  num_entries :: nat
  max_entries :: int

definition eui64set_compare :: "eui64set_entry \<Rightarrow> eui64set_entry \<Rightarrow> int" where
  "eui64set_compare lhs rhs =
     (if eui64 lhs < eui64 rhs then -1 else if eui64 lhs > eui64 rhs then 1 else 0)"

text \<open>Whether \<^verbatim>\<open>calloc\<close> succeeds is a parameter. Return value and set.\<close>

definition eui64set_init :: "bool \<Rightarrow> int \<Rightarrow> int \<times> eui64set" where
  "eui64set_init calloc_ok n =
     (if n > 0
      then if calloc_ok
           then (0, \<lparr>storage = Some (replicate (nat n) \<lparr>eui64 = 0, entry_p = 0\<rparr>), num_entries = 0, max_entries = n\<rparr>)
           else (-1, \<lparr>storage = None, num_entries = 0, max_entries = n\<rparr>)
      else (0, \<lparr>storage = None, num_entries = 0, max_entries = n\<rparr>))"

definition eui64set_clear :: "eui64set \<Rightarrow> eui64set" where
  "eui64set_clear self = self\<lparr>num_entries := 0\<rparr>"

definition eui64set_num_entries :: "eui64set \<Rightarrow> nat" where
  "eui64set_num_entries self = num_entries self"

definition eui64set_is_full :: "eui64set \<Rightarrow> bool" where
  "eui64set_is_full self \<longleftrightarrow> int (num_entries self) \<ge> max_entries self"

text \<open>\<open>None\<close> is a write outside the storage or through a null pointer.\<close>

definition eui64set_insert :: "eui64set \<Rightarrow> u64 \<Rightarrow> nat \<Rightarrow> (int \<times> eui64set) option" where
  "eui64set_insert self value p =
     (if int (num_entries self) < max_entries self
      then case storage self of
             None \<Rightarrow> None
           | Some es \<Rightarrow>
               if num_entries self < length es
               then Some (1, self\<lparr>storage := Some (es[num_entries self := \<lparr>eui64 = value, entry_p = p\<rparr>]),
                                  num_entries := num_entries self + 1\<rparr>)
               else None
      else Some (0, self))"

text \<open>\<^verbatim>\<open>qsort\<close> of the first \<open>n\<close> entries.\<close>

definition sort_entries :: "nat \<Rightarrow> eui64set_entry list \<Rightarrow> eui64set_entry list" where
  "sort_entries n es = sort_key eui64 (take n es) @ drop n es"

definition eui64set_sort :: "eui64set \<Rightarrow> eui64set" where
  "eui64set_sort self = self\<lparr>storage := map_option (sort_entries (num_entries self)) (storage self)\<rparr>"

definition eui64set_insert_and_sort :: "eui64set \<Rightarrow> u64 \<Rightarrow> nat \<Rightarrow> (int \<times> eui64set) option" where
  "eui64set_insert_and_sort self value p =
     (case eui64set_insert self value p of
        None \<Rightarrow> None
      | Some (r, self') \<Rightarrow> Some (r, if r = 1 then eui64set_sort self' else self'))"

text \<open>
  \<^verbatim>\<open>bsearch\<close> on the entries from \<open>l\<close> to before \<open>u\<close>. The loop is bounded by fuel; \<open>None\<close> means
  that it has not returned, \<open>Some None\<close> is the null pointer.
\<close>

fun bsearch :: "nat \<Rightarrow> eui64set_entry \<Rightarrow> eui64set_entry list \<Rightarrow> nat \<Rightarrow> nat \<Rightarrow> nat option option" where
  "bsearch fuel key es l u =
     (if \<not> l < u then Some None
      else case fuel of
             0 \<Rightarrow> None
           | Suc fuel' \<Rightarrow>
               let idx = (l + u) div 2; comparison = eui64set_compare key (es ! idx)
               in if comparison < 0 then bsearch fuel' key es l idx
                  else if comparison > 0 then bsearch fuel' key es (idx + 1) u
                  else Some (Some idx))"

declare bsearch.simps [simp del]

text \<open>A \<^verbatim>\<open>num_entries\<close> below \<^verbatim>\<open>2^31\<close> is halved at most 31 times.\<close>

definition bsearch_fuel :: nat where "bsearch_fuel = 32"

definition eui64set_find :: "eui64set \<Rightarrow> u64 \<Rightarrow> nat option option" where
  "eui64set_find self value =
     (case storage self of
        None \<Rightarrow> Some None
      | Some es \<Rightarrow> bsearch bsearch_fuel \<lparr>eui64 = value, entry_p = 0\<rparr> es 0 (num_entries self))"

text \<open>Return value, set and the pointer that is freed.\<close>

definition eui64set_remove_and_sort :: "eui64set \<Rightarrow> u64 \<Rightarrow> (int \<times> eui64set \<times> nat option) option" where
  "eui64set_remove_and_sort self value =
     (case eui64set_find self value of
        None \<Rightarrow> None
      | Some None \<Rightarrow> Some (0, self, None)
      | Some (Some i) \<Rightarrow>
          let es = the (storage self);
              es' = es[i := (es ! i)\<lparr>eui64 := - 1\<rparr>];
              self' = eui64set_sort (self\<lparr>storage := Some es'\<rparr>)
          in Some (1, self'\<lparr>num_entries := num_entries self' - 1\<rparr>,
                   if entry_p (es ! i) \<noteq> 0 then Some (entry_p (es ! i)) else None))"

text \<open>The array handed to \<^verbatim>\<open>free\<close>, if any; \<open>None\<close> is the null set.\<close>

definition eui64set_free :: "eui64set option \<Rightarrow> eui64set_entry list option" where
  "eui64set_free self = (case self of None \<Rightarrow> None | Some s \<Rightarrow> storage s)"

section \<open>Reading and writing\<close>

lemma eui64_write_unpack: "eui64_write v = unpack_bytes 8 v"
proof -
  have "(0xff :: u64) = mask 8" by (simp add: mask_eq_exp_minus_1)
  moreover have "ucast (x AND mask 8) = (ucast x :: byte)" for x :: u64
    by (rule bit_word_eqI) (simp add: bit_and_iff bit_mask_iff bit_ucast_iff del: mask_numeral)
  ultimately have "ucast (x AND 0xff) = (ucast x :: byte)" for x :: u64 by metis
  then show ?thesis by (simp add: eui64_write_def unpack_bytes_def upt_rec)
qed

lemma length_unpack_bytes: "length (unpack_bytes n v) = n"
  by (simp add: unpack_bytes_def)

lemma eui64_read_val:
  assumes "length b = 8"
  shows "eui64_read b = word_of_nat (bytes_val 0 b)"
proof -
  obtain b0 b1 b2 b3 b4 b5 b6 b7 where b: "b = [b0, b1, b2, b3, b4, b5, b6, b7]"
    using assms by (auto simp: length_Suc_conv eval_nat_numeral)
  have "push_bit n (ucast x :: u64) = word_of_nat (unat x * 2 ^ n)" for n and x :: byte
    by (simp add: push_bit_eq_mult)
  then show ?thesis by (simp add: eui64_read_def b)
qed

lemma bytes_val_unpack: "bytes_val 0 (unpack_bytes n v) = unat v mod 256 ^ n"
proof (induction n arbitrary: v)
  case (Suc n)
  have "Suc n - 1 - i = n - 1 - i + 1" if "i < n" for i using that by simp
  then have "unpack_bytes (Suc n) v = unpack_bytes n (drop_bit 8 v) @ [ucast v]"
    by (simp add: unpack_bytes_def distrib_right add.commute)
  moreover have "unat (ucast v :: byte) = unat v mod 256" by (simp add: unsigned_ucast_eq take_bit_eq_mod)
  moreover have "unat (drop_bit 8 v) = unat v div 256" by (simp add: unat_drop_bit_eq drop_bit_nat_def)
  ultimately show ?case
    using Suc.IH [of "drop_bit 8 v"] by (simp add: bytes_val_append mod_mult2_eq)
qed (simp add: unpack_bytes_def)

lemma eui64_read_eui64_write [simp]: "eui64_read (eui64_write v) = v"
proof -
  have "unat v < 256 ^ 8" using unsigned_less [of v, where 'a = nat] by simp
  then show ?thesis
    using eui64_read_val [of "unpack_bytes 8 v"] length_unpack_bytes [of 8 v]
    by (simp add: eui64_write_unpack bytes_val_unpack)
qed

lemma eui64_write_eui64_read: "length b = 8 \<Longrightarrow> eui64_write (eui64_read b) = b"
  using unpack_bytes_val [of b] by (simp add: eui64_read_val eui64_write_unpack)

text \<open>
  C28: Identifiers survive the conversion to and from network order: reading what was written
  gives the value back, and writing what was read gives the eight bytes back.
\<close>

theorem eui64_read_write:
  "eui64_read (eui64_write v) = v \<and> (length b = 8 \<longrightarrow> eui64_write (eui64_read b) = b)"
  by (simp add: eui64_write_eui64_read)

theorem eui64_read_write_witness:
  "eui64_write (eui64_read [0x91, 0xE0, 0xF0, 0, 0, 0, 0, 1]) = [0x91, 0xE0, 0xF0, 0, 0, 0, 0, 1]"
  using eui64_read_write [of 0 "[0x91, 0xE0, 0xF0, 0, 0, 0, 0, 1]"] by simp

section \<open>Bisection\<close>

lemma bsearch_total: "u - l < 2 ^ k \<Longrightarrow> \<exists>r. bsearch k key es l u = Some r"
proof (induction k arbitrary: l u)
  case 0
  then show ?case by (simp add: bsearch.simps)
next
  case (Suc k)
  let ?idx = "(l + u) div 2"
  have "?idx - l < 2 ^ k" "l < u \<Longrightarrow> u - (?idx + 1) < 2 ^ k" using Suc.prems by (auto simp: less_mult_imp_div_less)
  then show ?case using Suc.IH [of ?idx l] Suc.IH [of u "?idx + 1"]
    by (subst bsearch.simps) (auto simp: Let_def)
qed



lemma bsearch_correct:
  assumes "bsearch k \<lparr>eui64 = v, entry_p = 0\<rparr> es l u = Some r" "u \<le> length es" "sorted (map eui64 (take n es))" "u \<le> n"
    and "\<forall>i < n. i < length es \<longrightarrow> eui64 (es ! i) = v \<longrightarrow> l \<le> i \<and> i < u"
  shows "case r of None \<Rightarrow> \<forall>i < n. i < length es \<longrightarrow> eui64 (es ! i) \<noteq> v | Some i \<Rightarrow> i < u \<and> eui64 (es ! i) = v"
  using assms(1,2,4,5)
proof (induction k arbitrary: l u)
  case 0
  then show ?case by (auto simp: bsearch.simps split: if_splits)
next
  case (Suc k)
  let ?m = "(l + u) div 2"
  show ?case
  proof (cases "l < u")
    case False
    then show ?thesis using Suc.prems by (auto simp: bsearch.simps)
  next
    case True
    then have m: "l \<le> ?m" "?m < u" by auto
    have mono: "eui64 (es ! i) \<le> eui64 (es ! j)" if "i \<le> j" "j < n" "j < length es" for i j
      using sorted_nth_mono [OF assms(3) that(1)] that by simp
    consider (lt) "v < eui64 (es ! ?m)" | (gt) "eui64 (es ! ?m) < v" | (eq) "eui64 (es ! ?m) = v"
      using linorder_less_linear by blast
    then show ?thesis
    proof cases
      case lt
      have b: "bsearch k \<lparr>eui64 = v, entry_p = 0\<rparr> es l ?m = Some r"
        using Suc.prems(1) True lt by (simp add: bsearch.simps [of "Suc k"] eui64set_compare_def Let_def)
      have "i < ?m" if "i < n" "i < length es" "eui64 (es ! i) = v" for i
      proof (rule ccontr)
        assume "\<not> i < ?m"
        then show False using mono [of ?m i] that lt by simp
      qed
      then have "\<forall>i < n. i < length es \<longrightarrow> eui64 (es ! i) = v \<longrightarrow> l \<le> i \<and> i < ?m" using Suc.prems(4) by blast
      from Suc.IH [OF b _ _ this] Suc.prems(2,3) m show ?thesis by (cases r) simp_all
    next
      case gt
      have b: "bsearch k \<lparr>eui64 = v, entry_p = 0\<rparr> es (?m + 1) u = Some r"
        using Suc.prems(1) True gt less_not_sym [OF gt]
        by (simp add: bsearch.simps [of "Suc k"] eui64set_compare_def Let_def)
      have "?m + 1 \<le> i" if "i < n" "i < length es" "eui64 (es ! i) = v" for i
      proof (rule ccontr)
        assume "\<not> ?m + 1 \<le> i"
        then show False using mono [of i ?m] that gt m Suc.prems(2,3) by simp
      qed
      then have "\<forall>i < n. i < length es \<longrightarrow> eui64 (es ! i) = v \<longrightarrow> ?m + 1 \<le> i \<and> i < u" using Suc.prems(4) by blast
      from Suc.IH [OF b Suc.prems(2,3) this] show ?thesis .
    next
      case eq
      then show ?thesis
        using Suc.prems(1) True m by (auto simp: bsearch.simps [of "Suc k"] eui64set_compare_def Let_def)
    qed
  qed
qed

section \<open>The abstract set\<close>

definition entries :: "eui64set \<Rightarrow> eui64set_entry list" where
  "entries self = (case storage self of None \<Rightarrow> [] | Some es \<Rightarrow> take (num_entries self) es)"

definition eui64set_values :: "eui64set \<Rightarrow> u64 multiset" where
  "eui64set_values self = mset (map eui64 (entries self))"

text \<open>The invariant: as many entries as were asked for, the ones in use sorted.\<close>

definition eui64set_ok :: "eui64set \<Rightarrow> bool" where
  "eui64set_ok self \<longleftrightarrow> max_entries self < 2 ^ 31 \<and>
     (case storage self of
        None \<Rightarrow> num_entries self = 0 \<and> max_entries self \<le> 0
      | Some es \<Rightarrow> int (length es) = max_entries self \<and> num_entries self \<le> length es) \<and>
     sorted (map eui64 (entries self))"

lemma eui64set_init_ok: "n < 2 ^ 31 \<Longrightarrow> eui64set_ok (snd (eui64set_init True n)) \<and> eui64set_values (snd (eui64set_init True n)) = {#}"
  by (auto simp: eui64set_init_def eui64set_ok_def entries_def eui64set_values_def)

lemma eui64set_find_cases:
  assumes "eui64set_ok self"
  shows "case eui64set_find self v of
      None \<Rightarrow> False
    | Some None \<Rightarrow> find_pos (\<lambda>e. eui64 e = v) (entries self) = None
    | Some (Some i) \<Rightarrow> i < length (entries self) \<and> eui64 (entries self ! i) = v"
proof (cases "storage self")
  case None
  then show ?thesis by (simp add: eui64set_find_def entries_def)
next
  case (Some es)
  let ?n = "num_entries self"
  have ok: "?n \<le> length es" "sorted (map eui64 (take ?n es))" "int (length es) < 2 ^ 31"
    using assms Some by (auto simp: eui64set_ok_def entries_def)
  then have "?n - 0 < 2 ^ bsearch_fuel" by (simp add: bsearch_fuel_def)
  then obtain r where r: "bsearch bsearch_fuel \<lparr>eui64 = v, entry_p = 0\<rparr> es 0 ?n = Some r"
    using bsearch_total by blast
  have e: "entries self = take ?n es" using Some by (simp add: entries_def)
  have "case r of None \<Rightarrow> \<forall>i < ?n. i < length es \<longrightarrow> eui64 (es ! i) \<noteq> v | Some i \<Rightarrow> i < ?n \<and> eui64 (es ! i) = v"
    by (rule bsearch_correct [OF r ok(1,2) order_refl]) simp
  with ok(1) have "case r of None \<Rightarrow> \<forall>i < ?n. eui64 (take ?n es ! i) \<noteq> v | Some i \<Rightarrow> i < ?n \<and> eui64 (take ?n es ! i) = v"
    by (auto split: option.splits)
  then show ?thesis
    using r Some ok(1) by (cases r) (auto simp: eui64set_find_def e find_pos_None all_set_conv_all_nth)
qed


text \<open>
  C26: The bisection finds a value exactly when a search through all entries does, and what it
  finds is an entry with the value.
\<close>

theorem eui64set_find_equiv_linear:
  assumes "eui64set_ok self"
  shows "case eui64set_find self v of
      None \<Rightarrow> False
    | Some None \<Rightarrow> find_pos (\<lambda>e. eui64 e = v) (entries self) = None
    | Some (Some i) \<Rightarrow> i < length (entries self) \<and> eui64 (entries self ! i) = v"
  using assms by (rule eui64set_find_cases)

definition eui64set_example :: eui64set where
  "eui64set_example = \<lparr>storage = Some [\<lparr>eui64 = 3, entry_p = 0\<rparr>, \<lparr>eui64 = 5, entry_p = 0\<rparr>], num_entries = 2, max_entries = 2\<rparr>"

theorem eui64set_find_equiv_linear_witness:
  "case eui64set_find eui64set_example 5 of
      None \<Rightarrow> False
    | Some None \<Rightarrow> find_pos (\<lambda>e. eui64 e = 5) (entries eui64set_example) = None
    | Some (Some i) \<Rightarrow> i < length (entries eui64set_example) \<and> eui64 (entries eui64set_example ! i) = 5"
  by (rule eui64set_find_equiv_linear) (simp add: eui64set_ok_def eui64set_example_def entries_def)

section \<open>Insertion and removal\<close>

lemma take_sort_entries: "n \<le> length es \<Longrightarrow> take n (sort_entries n es) = sort_key eui64 (take n es)"
  by (simp add: sort_entries_def)

text \<open>
  C24: Insertion adds the value to the multiset of stored values unless the storage is full,
  keeps the invariant and never writes outside the storage.
\<close>

theorem eui64set_insert_refines_multiset:
  assumes "eui64set_ok self"
  shows "\<exists>r self'. eui64set_insert_and_sort self v p = Some (r, self') \<and> eui64set_ok self' \<and>
    (if eui64set_is_full self then r = 0 \<and> self' = self
     else r = 1 \<and> eui64set_values self' = add_mset v (eui64set_values self))"
proof (cases "eui64set_is_full self")
  case True
  then show ?thesis
    using assms by (simp add: eui64set_insert_and_sort_def eui64set_insert_def eui64set_is_full_def)
next
  case False
  let ?n = "num_entries self" and ?e = "\<lparr>eui64 = v, entry_p = p\<rparr>"
  obtain es where es: "storage self = Some es" "int (length es) = max_entries self" "max_entries self < 2 ^ 31"
    using False assms by (cases "storage self") (auto simp: eui64set_ok_def eui64set_is_full_def)
  have n: "?n < length es" using False es by (simp add: eui64set_is_full_def)
  have t: "take (Suc ?n) (es[?n := ?e]) = take ?n es @ [?e]" using n by (simp add: take_Suc_conv_app_nth)
  let ?self = "self\<lparr>storage := Some (sort_entries (Suc ?n) (es[?n := ?e])), num_entries := Suc ?n\<rparr>"
  have "eui64set_insert_and_sort self v p = Some (1, ?self)"
    using False es(1) n by (simp add: eui64set_insert_and_sort_def eui64set_insert_def eui64set_is_full_def eui64set_sort_def)
  moreover have "entries ?self = sort_key eui64 (take ?n es @ [?e])"
    using n take_sort_entries [of "Suc ?n" "es[?n := ?e]"] t by (simp add: entries_def)
  moreover have "length (sort_entries (Suc ?n) (es[?n := ?e])) = length es" using n by (simp add: sort_entries_def)
  ultimately show ?thesis
    using False es n by (simp add: eui64set_ok_def eui64set_values_def entries_def)
qed

theorem eui64set_insert_refines_multiset_witness:
  "\<exists>r self'. eui64set_insert_and_sort (snd (eui64set_init True 2)) 7 0 = Some (r, self') \<and> eui64set_ok self' \<and>
     r = 1 \<and> eui64set_values self' = {#7#}"
  using eui64set_insert_refines_multiset [of "snd (eui64set_init True 2)" 7 0] eui64set_init_ok [of 2]
  by (simp add: eui64set_init_def eui64set_is_full_def)


lemma last_sort_key_max:
  assumes "x \<in> set xs" "eui64 x = - 1"
  shows "eui64 (last (sort_key eui64 xs)) = - 1"
proof -
  let ?ys = "sort_key eui64 xs"
  have "x \<in> set ?ys" using assms(1) by simp
  then obtain i where i: "i < length ?ys" "?ys ! i = x" by (metis in_set_conv_nth)
  have "map eui64 ?ys ! i \<le> map eui64 ?ys ! (length ?ys - 1)"
    using i(1) by (intro sorted_nth_mono) auto
  then have "eui64 x \<le> eui64 (?ys ! (length ?ys - 1))" using i by (cases "length ?ys") simp_all
  moreover have "?ys \<noteq> []" using i(1) by force
  ultimately show ?thesis using assms(2) by (simp add: last_conv_nth word_order.extremum_unique)
qed

lemma mset_map_butlast: "ys \<noteq> [] \<Longrightarrow> mset (map f (butlast ys)) = mset (map f ys) - {#f (last ys)#}"
  by (induction ys) auto

lemma sorted_map_butlast: "sorted (map f ys) \<Longrightarrow> sorted (map f (butlast ys))"
  by (simp add: butlast_conv_take take_map [symmetric] sorted_wrt_take)

lemma eui64set_remove_entries:
  assumes ok: "eui64set_ok self" and f: "eui64set_find self v = Some (Some i)"
  defines "ys \<equiv> sort_key eui64 ((entries self)[i := (entries self ! i)\<lparr>eui64 := - 1\<rparr>])"
  shows "\<exists>self'. eui64set_remove_and_sort self v = Some (1, self', if entry_p (entries self ! i) \<noteq> 0 then Some (entry_p (entries self ! i)) else None) \<and>
    eui64set_ok self' \<and> entries self' = butlast ys"
proof -
  let ?n = "num_entries self"
  have i: "i < length (entries self)" using eui64set_find_cases [OF ok, of v] f by simp
  then obtain es where es: "storage self = Some es" by (cases "storage self") (simp_all add: entries_def)
  have n: "?n \<le> length es" "int (length es) = max_entries self" using ok es by (simp_all add: eui64set_ok_def)
  have ent: "entries self = take ?n es" "i < ?n" using es n i by (simp_all add: entries_def)
  let ?es = "sort_entries ?n (es[i := (es ! i)\<lparr>eui64 := - 1\<rparr>])"
  let ?self = "self\<lparr>storage := Some ?es, num_entries := ?n - 1\<rparr>"
  have ys: "take ?n ?es = ys"
    using n ent take_sort_entries [of ?n "es[i := (es ! i)\<lparr>eui64 := - 1\<rparr>]"] by (simp add: ys_def take_update_swap)
  have len: "length ?es = length es" "length ys = ?n" using n ent by (simp_all add: sort_entries_def ys_def)
  have e: "entries ?self = butlast ys"
    using len(2) by (simp add: entries_def butlast_conv_take ys [symmetric] min_def)
  have "sorted (map eui64 (butlast ys))" by (rule sorted_map_butlast) (simp add: ys_def)
  then have "eui64set_ok ?self" using ok n len e es by (simp add: eui64set_ok_def)
  moreover have "eui64set_remove_and_sort self v = Some (1, ?self, if entry_p (entries self ! i) \<noteq> 0 then Some (entry_p (entries self ! i)) else None)"
    using f es ent by (simp add: eui64set_remove_and_sort_def eui64set_sort_def Let_def)
  ultimately show ?thesis using e by blast
qed

lemma eui64set_remove_last:
  assumes "i < length xs"
  defines "e \<equiv> (xs ! i)\<lparr>eui64 := - 1\<rparr>"
  shows "mset (map eui64 (butlast (sort_key eui64 (xs[i := e])))) = mset (map eui64 xs) - {#eui64 (xs ! i)#}"
    and "- 1 \<notin> eui64 ` set xs \<Longrightarrow> mset (butlast (sort_key eui64 (xs[i := e]))) = mset xs - {#xs ! i#}"
proof -
  let ?ys = "sort_key eui64 (xs[i := e])"
  have e: "e \<in> set (xs[i := e])" "eui64 e = - 1" using assms by (simp_all add: set_update_memI)
  have l: "eui64 (last ?ys) = - 1" by (rule last_sort_key_max [OF e])
  have ne: "?ys \<noteq> []" using e(1) by (metis empty_iff list.set(1) set_sort)
  have u: "mset (xs[i := e]) = add_mset e (mset xs - {#xs ! i#})" using assms by (simp add: mset_update)
  have "mset (map eui64 ?ys) = add_mset (- 1) (mset (map eui64 xs) - {#eui64 (xs ! i)#})"
    using u e(2) assms(1) by (simp add: image_mset_Diff mset_subset_eq_single)
  then show "mset (map eui64 (butlast ?ys)) = mset (map eui64 xs) - {#eui64 (xs ! i)#}"
    using mset_map_butlast [OF ne, of eui64] l by simp
  assume no: "- 1 \<notin> eui64 ` set xs"
  have "last ?ys \<in> set (xs[i := e])" using ne last_in_set [of ?ys] by simp
  then have "last ?ys = e \<or> last ?ys \<in> set xs" using set_update_subset_insert by fastforce
  then have "last ?ys = e" using l no by (metis image_eqI)
  then show "mset (butlast ?ys) = mset xs - {#xs ! i#}"
    using mset_map_butlast [OF ne, of "\<lambda>x. x"] u by simp
qed

text \<open>
  C25: Removal takes one occurrence of the value out of the multiset of stored values and
  returns 1, or returns 0 and changes nothing when the value is not stored; the invariant is
  kept. As long as the value \<^verbatim>\<open>~0\<close>, which marks the entry that goes, is not itself
  stored, the entry that goes is the one whose pointer was freed.
\<close>

theorem eui64set_remove_refines_multiset:
  assumes "eui64set_ok self"
  shows "\<exists>r self' freed. eui64set_remove_and_sort self v = Some (r, self', freed) \<and> eui64set_ok self' \<and>
    eui64set_values self' = eui64set_values self - {#v#} \<and>
    (if v \<in># eui64set_values self
     then r = 1 \<and> (- 1 \<notin># eui64set_values self \<longrightarrow>
       (\<exists>e \<in> set (entries self). eui64 e = v \<and> mset (entries self') = mset (entries self) - {#e#} \<and>
          freed = (if entry_p e \<noteq> 0 then Some (entry_p e) else None)))
     else r = 0 \<and> self' = self \<and> freed = None)"
proof (cases "eui64set_find self v")
  case None
  then show ?thesis using eui64set_find_cases [OF assms, of v] by simp
next
  case (Some r)
  show ?thesis
  proof (cases r)
    case None
    then have "v \<notin># eui64set_values self"
      using Some eui64set_find_cases [OF assms, of v] by (auto simp: eui64set_values_def find_pos_None)
    then show ?thesis
      using Some None assms by (simp add: eui64set_remove_and_sort_def diff_single_trivial)
  next
    case (Some i)
    have i: "i < length (entries self)" "eui64 (entries self ! i) = v"
      using \<open>eui64set_find self v = Some r\<close> Some eui64set_find_cases [OF assms, of v] by simp_all
    then have "v \<in># eui64set_values self" by (auto simp: eui64set_values_def)
    let ?e = "entries self ! i"
    obtain self' where self': "eui64set_remove_and_sort self v = Some (1, self', if entry_p ?e \<noteq> 0 then Some (entry_p ?e) else None)"
        "eui64set_ok self'" "entries self' = butlast (sort_key eui64 ((entries self)[i := ?e\<lparr>eui64 := - 1\<rparr>]))"
      using eui64set_remove_entries [OF assms, of v i] \<open>eui64set_find self v = Some r\<close> Some by auto
    have "eui64set_values self' = eui64set_values self - {#v#}"
      using self'(3) eui64set_remove_last(1) [OF i(1)] i(2) by (simp add: eui64set_values_def)
    moreover have "mset (entries self') = mset (entries self) - {#?e#}" if "- 1 \<notin># eui64set_values self"
      using self'(3) eui64set_remove_last(2) [OF i(1)] that by (simp add: eui64set_values_def)
    moreover note \<open>v \<in># eui64set_values self\<close> i(2) nth_mem [OF i(1)]
    ultimately show ?thesis
      apply -
      apply (intro exI conjI, rule self'(1), rule self'(2), assumption)
      apply (simp only: if_P simp_thms)
      apply blast
      done
  qed
qed

theorem eui64set_remove_refines_multiset_witness:
  "\<exists>self' freed. eui64set_remove_and_sort eui64set_example 5 = Some (1, self', freed) \<and> eui64set_ok self' \<and>
    eui64set_values self' = {#3#}"
  using eui64set_remove_refines_multiset [of eui64set_example 5]
  by (auto simp: eui64set_ok_def eui64set_example_def entries_def eui64set_values_def)


end
