(* ===== verification/Msrp.thy ===== *)
theory Msrp
  imports Mmrp Eui64set
begin

text \<open>
  The Multiple Stream Registration Protocol (\<^verbatim>\<open>daemons/mrpd/msrp.c\<close>): talker, listener and
  domain attributes in one list; event handler with the pruning of uninteresting streams,
  transmission and reception of frames, notifications and commands of local clients, garbage
  collection.
\<close>

definition MSRP_ETYPE :: u16 where "MSRP_ETYPE = 0x22EA"
definition MSRP_ADDR :: bytes where "MSRP_ADDR = [0x01, 0x80, 0xC2, 0x00, 0x00, 0x0E]"
definition MSRP_PROT_VER :: byte where "MSRP_PROT_VER = 0"
definition MSRP_INTERESTING_STREAM_ID_COUNT :: int where "MSRP_INTERESTING_STREAM_ID_COUNT = 8"
definition MSRP_LISTENER_IGNORE :: u32 where "MSRP_LISTENER_IGNORE = 0"
definition MSRP_LISTENER_ASKFAILED :: u32 where "MSRP_LISTENER_ASKFAILED = 1"
definition MSRP_DIRECTION_LISTENER :: u32 where "MSRP_DIRECTION_LISTENER = 1"

datatype msrp_type = MSRP_TALKER_ADV_TYPE | MSRP_TALKER_FAILED_TYPE | MSRP_LISTENER_TYPE | MSRP_DOMAIN_TYPE

fun msrp_type_code :: "msrp_type \<Rightarrow> byte" where
  "msrp_type_code MSRP_TALKER_ADV_TYPE = 1"
| "msrp_type_code MSRP_TALKER_FAILED_TYPE = 2"
| "msrp_type_code MSRP_LISTENER_TYPE = 3"
| "msrp_type_code MSRP_DOMAIN_TYPE = 4"

text \<open>The \<^verbatim>\<open>AttributeLength\<close> of a type, the length of its FirstValue.\<close>

fun msrp_firstlen :: "msrp_type \<Rightarrow> nat" where
  "msrp_firstlen MSRP_TALKER_ADV_TYPE = 25"
| "msrp_firstlen MSRP_TALKER_FAILED_TYPE = 34"
| "msrp_firstlen MSRP_LISTENER_TYPE = 8"
| "msrp_firstlen MSRP_DOMAIN_TYPE = 4"

record msrpdu_talker_fail =
  StreamID :: bytes
  Dest_Addr :: bytes
  Vlan_ID :: u16
  MaxFrameSize :: u16
  MaxIntervalFrames :: u16
  PriorityAndRank :: byte
  AccumulatedLatency :: u32
  BridgeID :: bytes
  FailureCode :: byte

record msrpdu_domain =
  SRclassID :: byte
  SRclassPriority :: byte
  neighborSRclassPriority :: byte
  SRclassVID :: u16

text \<open>
  The fields of an attribute besides its state machines. The two members of the union are kept
  apart; each is used for its own types only.
\<close>

record msrp_value =
  ms_type :: msrp_type
  talk_listen :: msrpdu_talker_fail
  ms_domain :: msrpdu_domain
  substate :: u32
  direction :: u32

definition zero_talker :: msrpdu_talker_fail where
  "zero_talker =
     \<lparr>StreamID = replicate 8 0, Dest_Addr = replicate 6 0, Vlan_ID = 0, MaxFrameSize = 0, MaxIntervalFrames = 0,
      PriorityAndRank = 0, AccumulatedLatency = 0, BridgeID = replicate 8 0, FailureCode = 0\<rparr>"

definition zero_domain :: msrpdu_domain where
  "zero_domain = \<lparr>SRclassID = 0, SRclassPriority = 0, neighborSRclassPriority = 0, SRclassVID = 0\<rparr>"

definition zero_value :: "msrp_type \<Rightarrow> msrp_value" where
  "zero_value t = \<lparr>ms_type = t, talk_listen = zero_talker, ms_domain = zero_domain, substate = 0, direction = 0\<rparr>"

type_synonym msrp_attribute = "msrp_value mrp_attribute"

text \<open>The database: the part every application has, and what is particular to MSRP.\<close>

record msrp_database =
  msrp_app :: "msrp_value mrp_app"
  interesting_stream_ids :: eui64set
  enable_pruning_of_uninteresting_ids :: bool

abbreviation msrp_attrib_list :: "msrp_database \<Rightarrow> msrp_attribute list" where
  "msrp_attrib_list db \<equiv> attrib_list (msrp_app db)"

abbreviation msrp_mrp_db :: "msrp_database \<Rightarrow> mrp_database" where
  "msrp_mrp_db db \<equiv> mrp_db (msrp_app db)"

definition set_app :: "msrp_value mrp_app \<Rightarrow> msrp_database \<Rightarrow> msrp_database" where
  "set_app a db = db\<lparr>msrp_app := a\<rparr>"

definition is_talker :: "msrp_type \<Rightarrow> bool" where
  "is_talker t \<longleftrightarrow> t = MSRP_TALKER_ADV_TYPE \<or> t = MSRP_TALKER_FAILED_TYPE"

fun msrp_attrib_type_string :: "msrp_type \<Rightarrow> string" where
  "msrp_attrib_type_string MSRP_TALKER_ADV_TYPE = ''Talker Advertise''"
| "msrp_attrib_type_string MSRP_TALKER_FAILED_TYPE = ''Talker Failed''"
| "msrp_attrib_type_string MSRP_LISTENER_TYPE = ''Listener''"
| "msrp_attrib_type_string MSRP_DOMAIN_TYPE = ''Domain''"

section \<open>The attribute list\<close>

definition msrp_count_type :: "msrp_type \<Rightarrow> msrp_database option \<Rightarrow> nat" where
  "msrp_count_type t d =
     (case d of None \<Rightarrow> 0 | Some db \<Rightarrow> length (filter (\<lambda>a. t = ms_type (attribute a)) (msrp_attrib_list db)))"

text \<open>Talker attributes of both types stand for the same stream.\<close>

definition msrp_matches :: "msrp_value \<Rightarrow> msrp_value \<Rightarrow> bool" where
  "msrp_matches r a \<longleftrightarrow>
     (ms_type r = ms_type a \<or>
      ms_type r = MSRP_TALKER_ADV_TYPE \<and> ms_type a = MSRP_TALKER_FAILED_TYPE \<or>
      ms_type r = MSRP_TALKER_FAILED_TYPE \<and> ms_type a = MSRP_TALKER_ADV_TYPE) \<and>
     (if ms_type a = MSRP_DOMAIN_TYPE
      then SRclassID (ms_domain a) = SRclassID (ms_domain r)
      else StreamID (talk_listen a) = StreamID (talk_listen r))"

definition msrp_lookup :: "msrp_attribute list \<Rightarrow> msrp_attribute \<Rightarrow> nat option" where
  "msrp_lookup as rattrib = find_pos (\<lambda>a. msrp_matches (attribute rattrib) (attribute a)) as"

text \<open>\<^verbatim>\<open>memcmp\<close> of the domain structure, with its byte of padding, or of the stream identifiers.\<close>

definition domain_bytes :: "msrpdu_domain \<Rightarrow> bytes" where
  "domain_bytes d =
     [SRclassID d, SRclassPriority d, neighborSRclassPriority d, 0, lo8 (SRclassVID d), hi8 (SRclassVID d)]"

definition msrp_less :: "msrp_value \<Rightarrow> msrp_value \<Rightarrow> bool" where
  "msrp_less a r \<longleftrightarrow>
     (if ms_type a = MSRP_DOMAIN_TYPE then domain_bytes (ms_domain a) < domain_bytes (ms_domain r)
      else StreamID (talk_listen a) < StreamID (talk_listen r))"

fun msrp_add :: "msrp_attribute list \<Rightarrow> msrp_attribute \<Rightarrow> nat \<times> msrp_attribute list" where
  "msrp_add [] rattrib = (0, [rattrib])"
| "msrp_add (a # as) rattrib =
     (if ms_type (attribute rattrib) = ms_type (attribute a)
      then if msrp_less (attribute a) (attribute rattrib)
           then if as \<noteq> [] \<and> ms_type (attribute a) = ms_type (attribute (hd as))
                then let (i, as') = msrp_add as rattrib in (Suc i, a # as')
                else (1, a # rattrib # as)
           else (0, rattrib # a # as)
      else let (i, as') = msrp_add as rattrib in (Suc i, a # as'))"

text \<open>The node is zeroed; each caller sets the type.\<close>

definition msrp_alloc :: "os \<Rightarrow> world \<Rightarrow> msrp_attribute option \<times> world" where
  "msrp_alloc env w =
     (let (ok, w') = malloc env 112 w
      in (if ok then Some (fresh_attribute (zero_value MSRP_TALKER_ADV_TYPE)) else None, w'))"

text \<open>
  The merge of a received attribute into the stored one. For a listener that leaves the state
  AskingFailed the code first looks for a talker of the stream: \<open>msrp_merge_talker\<close>, whose
  answer is the first argument of \<open>msrp_merge\<close>.
\<close>

definition msrp_merge_talker ::
  "os \<Rightarrow> msrp_attribute list \<Rightarrow> msrp_attribute \<Rightarrow> msrp_attribute \<Rightarrow> world \<Rightarrow> bool \<times> world" where
  "msrp_merge_talker env as rattrib attrib w =
     (let v = attribute attrib in
      if ms_type v = MSRP_LISTENER_TYPE \<and> substate v \<noteq> substate (attribute rattrib) \<and> substate v = MSRP_LISTENER_ASKFAILED
      then (case msrp_alloc env w of
              (None, w1) \<Rightarrow> (False, w1)
            | (Some t, w1) \<Rightarrow>
                (msrp_lookup as (t\<lparr>attribute := (attribute t)\<lparr>ms_type := MSRP_TALKER_ADV_TYPE,
                   talk_listen := (talk_listen (attribute t))\<lparr>StreamID := StreamID (talk_listen v)\<rparr>\<rparr>\<rparr>) \<noteq> None, w1))
      else (True, w))"

text \<open>The state of the Registrar is reset to force a notification.\<close>

definition force_notify :: "msrp_attribute \<Rightarrow> msrp_attribute" where
  "force_notify a = a\<lparr>registrar := (registrar a)\<lparr>reg_state := MRP_MT_STATE\<rparr>\<rparr>"

definition msrp_merge :: "bool \<Rightarrow> msrp_attribute \<Rightarrow> msrp_attribute \<Rightarrow> msrp_attribute" where
  "msrp_merge talker_known rattrib attrib =
     (let a = attrib\<lparr>registrar := (registrar attrib)\<lparr>reg_macaddr := reg_macaddr (registrar rattrib)\<rparr>\<rparr>;
          v = attribute attrib; r = attribute rattrib
      in case ms_type v of
           MSRP_LISTENER_TYPE \<Rightarrow>
             if substate v \<noteq> substate r \<and> talker_known
             then force_notify (a\<lparr>attribute := v\<lparr>substate := substate r\<rparr>\<rparr>)
             else a
         | MSRP_DOMAIN_TYPE \<Rightarrow>
             if SRclassPriority (ms_domain v) \<noteq> SRclassPriority (ms_domain r) \<or> SRclassVID (ms_domain v) \<noteq> SRclassVID (ms_domain r)
             then force_notify (a\<lparr>attribute := v\<lparr>ms_domain := (ms_domain v)\<lparr>
                    neighborSRclassPriority := SRclassPriority (ms_domain r), SRclassVID := SRclassVID (ms_domain r)\<rparr>\<rparr>\<rparr>)
             else a
         | _ \<Rightarrow>
             let a' = a\<lparr>attribute := v\<lparr>talk_listen := (talk_listen v)\<lparr>
                    FailureCode := FailureCode (talk_listen r), BridgeID := BridgeID (talk_listen r)\<rparr>\<rparr>\<rparr>
             in if ms_type v \<noteq> ms_type r
                then force_notify (a'\<lparr>attribute := (attribute a')\<lparr>ms_type := ms_type r\<rparr>\<rparr>)
                else a')"

text \<open>The loop runs from byte 7 down to byte 1.\<close>

definition msrp_increment_streamid :: "bytes \<Rightarrow> bytes" where
  "msrp_increment_streamid streamid = increment_from 7 streamid"

text \<open>The value a vector continues with.\<close>

definition msrp_succ :: "msrp_value \<Rightarrow> msrp_value" where
  "msrp_succ v =
     (case ms_type v of
        MSRP_DOMAIN_TYPE \<Rightarrow> v\<lparr>ms_domain := (ms_domain v)\<lparr>SRclassID := SRclassID (ms_domain v) + 1,
          SRclassPriority := SRclassPriority (ms_domain v) + 1\<rparr>\<rparr>
      | MSRP_LISTENER_TYPE \<Rightarrow> v\<lparr>talk_listen := (talk_listen v)\<lparr>StreamID := msrp_increment_streamid (StreamID (talk_listen v))\<rparr>\<rparr>
      | _ \<Rightarrow> v\<lparr>talk_listen := (talk_listen v)\<lparr>StreamID := msrp_increment_streamid (StreamID (talk_listen v)),
          Dest_Addr := mmrp_increment_macaddr (Dest_Addr (talk_listen v))\<rparr>\<rparr>)"

section \<open>Notifications\<close>

text \<open>\<^verbatim>\<open>%d\<close> of an unsigned 32 bit value.\<close>

definition fmt_d :: "u32 \<Rightarrow> string" where
  "fmt_d v = (if sint v < 0 then CHR ''-'' # fmt_u (nat (- sint v)) else fmt_u (unat v))"

definition talker_variant :: "msrpdu_talker_fail \<Rightarrow> string" where
  "talker_variant t =
     ''T:S='' @ fmt_hex_bytes (StreamID t) @ '',A='' @ fmt_hex_bytes (Dest_Addr t) @ '',V='' @ fmt_04x (Vlan_ID t) @
     '',Z='' @ fmt_u (unat (MaxFrameSize t)) @ '',I='' @ fmt_u (unat (MaxIntervalFrames t)) @
     '',P='' @ fmt_u (unat (PriorityAndRank t)) @ '',L='' @ fmt_d (AccumulatedLatency t)"

definition failure_variant :: "msrpdu_talker_fail \<Rightarrow> string" where
  "failure_variant t = '',B='' @ fmt_hex_bytes (BridgeID t) @ '',C='' @ fmt_u (unat (FailureCode t))"

definition listener_variant :: "msrp_value \<Rightarrow> string" where
  "listener_variant v = ''L:D='' @ fmt_d (substate v) @ '',S='' @ fmt_hex_bytes (StreamID (talk_listen v))"

definition domain_variant :: "msrpdu_domain \<Rightarrow> string" where
  "domain_variant d =
     ''D:C='' @ fmt_u (unat (SRclassID d)) @ '',P='' @ fmt_u (unat (SRclassPriority d)) @
     '',V='' @ fmt_04x (SRclassVID d) @ '',N='' @ fmt_u (unat (neighborSRclassPriority d))"

definition msrp_notify_text :: "msrp_attribute \<Rightarrow> string \<Rightarrow> string" where
  "msrp_notify_text attrib cmd =
     (let v = attribute attrib;
          variant = snprintf (BUFSIZE - 1)
            (case ms_type v of
               MSRP_LISTENER_TYPE \<Rightarrow> listener_variant v
             | MSRP_DOMAIN_TYPE \<Rightarrow> domain_variant (ms_domain v)
             | MSRP_TALKER_ADV_TYPE \<Rightarrow> talker_variant (talk_listen v)
             | MSRP_TALKER_FAILED_TYPE \<Rightarrow> talker_variant (talk_listen v) @ failure_variant (talk_listen v));
          regsrc = snprintf (BUFSIZE - 1) (''R='' @ fmt_hex_bytes (reg_macaddr (registrar attrib)));
          mrp_state = mrp_decode_state (registrar attrib) (applicant attrib) 8
      in snprintf (MAX_MRPD_CMDSZ - 1) (cmd @ '' '' @ variant @ '' '' @ regsrc @ '' '' @ mrp_state @ newline))"

definition msrp_send_notifications ::
  "os \<Rightarrow> sockaddr_in list \<Rightarrow> msrp_attribute \<Rightarrow> mrp_notify \<Rightarrow> world \<Rightarrow> int \<times> world" where
  "msrp_send_notifications env cs attrib notify w =
     (case alloc_notify_bufs env w of
        (None, w1) \<Rightarrow> (-1, w1)
      | (Some ok, w1) \<Rightarrow>
          (0, if \<not> ok then w1
              else case notify of
                     MRP_NOTIFY_NEW \<Rightarrow> send_to_clients env cs (msrp_notify_text attrib ''SNE'') w1
                   | MRP_NOTIFY_JOIN \<Rightarrow> send_to_clients env cs (msrp_notify_text attrib ''SJO'') w1
                   | MRP_NOTIFY_LV \<Rightarrow> send_to_clients env cs (msrp_notify_text attrib ''SLE'') w1
                   | MRP_NOTIFY_NONE \<Rightarrow> w1))"

section \<open>Transmission\<close>

definition talker_first :: "msrpdu_talker_fail \<Rightarrow> bytes" where
  "talker_first t =
     take 8 (StreamID t @ replicate 8 0) @ take 6 (Dest_Addr t @ replicate 6 0) @
     [hi8 (Vlan_ID t), lo8 (Vlan_ID t), hi8 (MaxFrameSize t), lo8 (MaxFrameSize t),
      hi8 (MaxIntervalFrames t), lo8 (MaxIntervalFrames t), PriorityAndRank t,
      ucast (drop_bit 24 (AccumulatedLatency t)), ucast (drop_bit 16 (AccumulatedLatency t)),
      ucast (drop_bit 8 (AccumulatedLatency t)), ucast (AccumulatedLatency t)]"

definition failure_first :: "msrpdu_talker_fail \<Rightarrow> bytes" where
  "failure_first t = take 8 (BridgeID t @ replicate 8 0) @ [FailureCode t]"

text \<open>
  \<^verbatim>\<open>vectorize_talker\<close>: the whole talker structure of the candidate must be the first one with
  stream and address advanced, which \<open>msrp_succ\<close> does.
\<close>

definition vectorize_talker :: "msrp_value \<Rightarrow> msrp_value \<Rightarrow> bool" where
  "vectorize_talker first candidate_attrib \<longleftrightarrow> talk_listen first = talk_listen candidate_attrib"

definition msrp_talker_params :: "msrp_type \<Rightarrow> msrp_value emit_params" where
  "msrp_talker_params type =
     (let failed = (type = MSRP_TALKER_FAILED_TYPE)
      in \<lparr>em_match = (\<lambda>v. ms_type v = type), em_type = msrp_type_code type, em_length = if failed then 34 else 25,
          em_data = 4, em_vector_size = if failed then 37 else 28,
          em_first = (\<lambda>v. talker_first (talk_listen v) @ (if failed then failure_first (talk_listen v) else [])),
          em_vectidx = if failed then 34 else 25, em_succ = msrp_succ, em_same = vectorize_talker, em_slack = 2,
          em_pad = (\<lambda>_. (0, 0)), em_join_first = False, em_keep_lva = False\<rparr>)"

text \<open>Domains are not aggregated: every one starts a vector of its own.\<close>

definition msrp_domain_params :: "msrp_value emit_params" where
  "msrp_domain_params =
     \<lparr>em_match = (\<lambda>v. ms_type v = MSRP_DOMAIN_TYPE), em_type = msrp_type_code MSRP_DOMAIN_TYPE, em_length = 4,
      em_data = 4, em_vector_size = 5,
      em_first = (\<lambda>v. let d = ms_domain v
                       in [SRclassID d, SRclassPriority d, hi8 (SRclassVID d), lo8 (SRclassVID d)]),
      em_vectidx = 4, em_succ = msrp_succ, em_same = (\<lambda>_ _. False), em_slack = 2,
      em_pad = (\<lambda>_. (0, 0)), em_join_first = False, em_keep_lva = False\<rparr>"

text \<open>
  The length of the attribute list, with its endmark, is written in front of the vectors when
  a message was made.
\<close>

definition msrp_list_length :: "nat \<Rightarrow> (bytes \<times> nat) flow \<Rightarrow> (bytes \<times> nat) flow" where
  "msrp_list_length p0 r =
     (case r of
        Next (buf, bytes_used) \<Rightarrow>
          if bytes_used = 0 then Next (buf, 0)
          else let n = word_of_nat (bytes_used - 4)
               in (case wr_bytes buf (p0 + 2) [hi8 n, lo8 n] of None \<Rightarrow> Fault | Some buf' \<Rightarrow> Next (buf', bytes_used))
      | Goto \<Rightarrow> Goto
      | Fault \<Rightarrow> Fault)"

definition msrp_emit_talkervectors ::
  "msrp_type \<Rightarrow> bytes \<Rightarrow> nat \<Rightarrow> nat \<Rightarrow> bool \<Rightarrow> bool \<Rightarrow> msrp_attribute list \<Rightarrow>
     (bytes \<times> nat) flow \<times> msrp_attribute list" where
  "msrp_emit_talkervectors type msgbuf p0 eof lv_all send_empty as =
     (let (r, as') = emit_message (msrp_talker_params type) msgbuf p0 eof lv_all send_empty as
      in (msrp_list_length p0 r, as'))"

definition msrp_emit_domainvectors ::
  "bytes \<Rightarrow> nat \<Rightarrow> nat \<Rightarrow> bool \<Rightarrow> bool \<Rightarrow> msrp_attribute list \<Rightarrow>
     (bytes \<times> nat) flow \<times> msrp_attribute list" where
  "msrp_emit_domainvectors msgbuf p0 eof lv_all send_empty as =
     (let (r, as') = emit_message msrp_domain_params msgbuf p0 eof lv_all send_empty as
      in (msrp_list_length p0 r, as'))"

text \<open>
  The listener vectors. Their substates are collected in \<^verbatim>\<open>listen_declare\<close>, an array of \<open>sz\<close>
  places that grows by 64, and follow the packed events of the vector four to a byte.
\<close>

definition MRPDU_4PACK_ENCODE :: "u32 \<Rightarrow> u32 \<Rightarrow> u32 \<Rightarrow> u32 \<Rightarrow> byte" where
  "MRPDU_4PACK_ENCODE w x y z = ucast (w * 64 + x * 16 + y * 4 + z)"

fun listen_inner ::
  "os \<Rightarrow> nat \<Rightarrow> nat \<Rightarrow> bytes \<Rightarrow> vector_state \<Rightarrow> u32 list \<Rightarrow> nat \<Rightarrow> msrp_attribute list \<Rightarrow> world \<Rightarrow>
     (vector_state \<times> u32 list \<times> nat) flow \<times> msrp_attribute list \<times> world" where
  "listen_inner env eof vp streamid st decl sz [] w = (Next (st, decl, sz), [], w)"
| "listen_inner env eof vp streamid st decl sz (v # vs) w =
     (if ms_type (attribute v) \<noteq> MSRP_LISTENER_TYPE then (Next (st, decl, sz), v # vs, w)
      else if \<not> app_tx (applicant v) then (Next (st, decl, sz), v # vs, w)
      else let streamid' = msrp_increment_streamid streamid
      in if StreamID (talk_listen (attribute v)) \<noteq> streamid' then (Next (st, decl, sz), v # vs, w)
      else case vect_evt (app_sndmsg (applicant v)) (reg_state (registrar v)) of
             None \<Rightarrow> (Goto, clear_tx v # vs, w)
           | Some e \<Rightarrow>
               let (ok, w1) = (if sz = length decl + 1 then malloc env ((64 + sz) * 4) w else (True, w));
                   sz1 = (if sz = length decl + 1 then sz + 64 else sz)
               in if \<not> ok then (Goto, clear_tx v # vs, w1)
                  else (case push_evt vp e st of
                          None \<Rightarrow> (Fault, clear_tx v # vs, w1)
                        | Some st' \<Rightarrow>
                            if eof < vp + 2 + fst (snd st') + 2 then (Goto, clear_tx v # vs, w1)
                            else let (r, vs', w2) = listen_inner env eof vp streamid' st'
                                       (decl @ [substate (attribute v)]) sz1 vs w1
                                 in (r, clear_tx v # vs', w2)))"

fun listen_4packs :: "nat \<Rightarrow> nat \<Rightarrow> bytes \<Rightarrow> nat \<Rightarrow> u32 list \<Rightarrow> (bytes \<times> nat) flow" where
  "listen_4packs eof vp buf vectidx (a # b # c # d # decl) =
     (if eof < vp + 2 + vectidx + 2 then Goto
      else case wr buf (vp + 2 + vectidx) (MRPDU_4PACK_ENCODE a b c d) of
             None \<Rightarrow> Fault
           | Some buf' \<Rightarrow>
               if eof < vp + 2 + Suc vectidx + 3 then Goto else listen_4packs eof vp buf' (Suc vectidx) decl)"
| "listen_4packs eof vp buf vectidx [] = Next (buf, vectidx)"
| "listen_4packs eof vp buf vectidx decl =
     (let v = decl @ replicate 3 0
      in case wr buf (vp + 2 + vectidx) (MRPDU_4PACK_ENCODE (v ! 0) (v ! 1) (v ! 2) (v ! 3)) of
           None \<Rightarrow> Fault
         | Some buf' \<Rightarrow> Next (buf', Suc vectidx))"

text \<open>One vector, started by the attribute \<open>a\<close>; \<open>sz\<close> is at least 64, so the first substate always has a place.\<close>

definition listen_vector ::
  "os \<Rightarrow> nat \<Rightarrow> bool \<Rightarrow> nat \<Rightarrow> bytes \<Rightarrow> nat \<Rightarrow> msrp_attribute \<Rightarrow> msrp_attribute list \<Rightarrow> world \<Rightarrow>
     (bytes \<times> nat \<times> nat) flow \<times> msrp_attribute list \<times> world" where
  "listen_vector env eof lv_all vp buf sz a as w =
     (let streamid = StreamID (talk_listen (attribute a))
      in case wr_bytes buf (vp + 2) (take 8 (streamid @ replicate 8 0)) of
        None \<Rightarrow> (Fault, as, w)
      | Some buf1 \<Rightarrow>
     (case vect_evt (app_sndmsg (applicant a)) (reg_state (registrar a)) of
        None \<Rightarrow> (Goto, as, w)
      | Some e \<Rightarrow>
     (case listen_inner env eof vp streamid (buf1, 8, [e, 0, 0], 1, 1) [substate (attribute a)] sz as w of
        (Goto, as', w') \<Rightarrow> (Goto, as', w')
      | (Fault, as', w') \<Rightarrow> (Fault, as', w')
      | (Next (st, decl, sz'), as', w') \<Rightarrow>
     (case emit_trailer vp st of
        None \<Rightarrow> (Fault, as', w')
      | Some (buf2, vectidx) \<Rightarrow>
     (case listen_4packs eof vp buf2 vectidx decl of
        Goto \<Rightarrow> (Goto, as', w')
      | Fault \<Rightarrow> (Fault, as', w')
      | Next (buf3, vectidx') \<Rightarrow>
          if eof < vp + 2 + vectidx' + 2 then (Goto, as', w')
          else let h = vect_header lv_all (snd (snd (snd (snd st))))
               in case wr_bytes buf3 vp [hi8 h, lo8 h] of
                    None \<Rightarrow> (Fault, as', w')
                  | Some buf4 \<Rightarrow> (Next (buf4, vp + 2 + vectidx', sz'), as', w'))))))"

lemma listen_inner_length: "length (fst (snd (listen_inner env eof vp k st decl sz vs w))) = length vs"
  by (induction vs arbitrary: k st decl sz w) (auto simp: Let_def case_prod_unfold split: option.splits)

lemma listen_vector_length: "length (fst (snd (listen_vector env eof lv_all vp buf sz a as w))) = length as"
  using listen_inner_length [of env eof vp "StreamID (talk_listen (attribute a))" _ _ sz as w]
  by (auto simp: listen_vector_def Let_def split: option.splits flow.splits prod.splits)
     (metis fst_conv snd_conv)+

lemma listen_vector_length':
  "(r, as', w') = listen_vector env eof lv_all vp buf sz a as w \<Longrightarrow> length as' = length as"
  by (metis listen_vector_length fst_conv snd_conv)

function listen_loop ::
  "os \<Rightarrow> nat \<Rightarrow> bool \<Rightarrow> nat \<Rightarrow> nat \<Rightarrow> bytes \<Rightarrow> nat \<Rightarrow> bool \<Rightarrow> msrp_attribute list \<Rightarrow> world \<Rightarrow>
     (bytes \<times> nat \<times> nat \<times> bool) flow \<times> msrp_attribute list \<times> world" where
  "listen_loop env eof lv_all ptr vp buf sz found [] w = (Next (buf, ptr, vp, found), [], w)"
| "listen_loop env eof lv_all ptr vp buf sz found (a # as) w =
     (if \<not> ptr + 13 + 2 < eof then (Next (buf, ptr, vp, found), a # as, w)
      else if ms_type (attribute a) \<noteq> MSRP_LISTENER_TYPE \<or> \<not> app_tx (applicant a)
      then let (r, as', w') = listen_loop env eof lv_all ptr vp buf sz found as w in (r, a # as', w')
      else if app_encode (applicant a) = MRP_ENCODE_OPTIONAL
      then let (r, as', w') = listen_loop env eof lv_all ptr vp buf sz found as w in (r, clear_tx a # as', w')
      else case listen_vector env eof lv_all vp buf sz a as w of
             (Goto, as', w') \<Rightarrow> (Goto, clear_tx a # as', w')
           | (Fault, as', w') \<Rightarrow> (Fault, clear_tx a # as', w')
           | (Next (buf', vp', sz'), as', w') \<Rightarrow>
               let (r, as'', w'') = listen_loop env eof False vp' vp' buf' sz' True as' w'
               in (r, clear_tx a # as'', w''))"
  by pat_completeness auto
termination
proof (relation "measure (\<lambda>(_, _, _, _, _, _, _, _, as, _). length as)", goal_cases)
  case 1
  show ?case by simp
next
  case 2
  then show ?case by simp
next
  case 3
  then show ?case by simp
next
  case (4 env eof lv_all ptr vp buf sz found a as w)
  then show ?case by (auto dest: listen_vector_length')
qed

definition mark_listener :: "msrp_attribute \<Rightarrow> msrp_attribute" where
  "mark_listener a =
     (if ms_type (attribute a) = MSRP_LISTENER_TYPE then a\<lparr>applicant := (applicant a)\<lparr>app_tx := True\<rparr>\<rparr> else a)"

text \<open>What the emit functions do after their loop: an empty LeaveAll message, and the endmark.\<close>

definition listen_finish :: "nat \<Rightarrow> bool \<Rightarrow> bytes \<times> nat \<times> nat \<times> bool \<Rightarrow> (bytes \<times> nat) flow" where
  "listen_finish p0 send_empty r =
     (case r of (buf1, ptr, vp, found) \<Rightarrow>
        (case (if \<not> found \<and> send_empty
               then map_option (\<lambda>b. (b, vp + 10, vp + 10))
                      (wr_bytes buf1 vp [hi8 (vect_header True 0), lo8 (vect_header True 0)])
               else Some (buf1, ptr, vp)) of
           None \<Rightarrow> Fault
         | Some (buf2, ptr, vp) \<Rightarrow>
             if vp = p0 + 4 then Next (buf2, 0)
             else (case wr_bytes buf2 ptr [0, 0] of
                     None \<Rightarrow> Fault
                   | Some buf3 \<Rightarrow> Next (buf3, ptr + 2 - p0))))"

definition msrp_emit_listenvectors ::
  "os \<Rightarrow> bytes \<Rightarrow> nat \<Rightarrow> nat \<Rightarrow> bool \<Rightarrow> bool \<Rightarrow> msrp_attribute list \<Rightarrow> world \<Rightarrow>
     (bytes \<times> nat) flow \<times> msrp_attribute list \<times> world" where
  "msrp_emit_listenvectors env msgbuf p0 eof lv_all send_empty as w =
     (if eof < p0 + 13 then (Goto, as, w)
      else case wr_bytes msgbuf p0 [msrp_type_code MSRP_LISTENER_TYPE, 8] of
        None \<Rightarrow> (Fault, as, w)
      | Some buf0 \<Rightarrow>
     (case malloc env (64 * 4) w of
        (ok, w1) \<Rightarrow>
          if \<not> ok then (Goto, as, w1)
          else (case listen_loop env eof lv_all p0 (p0 + 4) buf0 64 False (map mark_listener as) w1 of
                  (Goto, as', w') \<Rightarrow> (Goto, as', w')
                | (Fault, as', w') \<Rightarrow> (Fault, as', w')
                | (Next r, as', w') \<Rightarrow> (msrp_list_length p0 (listen_finish p0 send_empty r), as', w'))))"

text \<open>The four messages one after the other: a failed one ends the transmission.\<close>

definition emit_then ::
  "(bytes \<times> nat) flow \<times> msrp_attribute list \<times> world \<Rightarrow> nat \<Rightarrow>
   (bytes \<Rightarrow> nat \<Rightarrow> msrp_attribute list \<Rightarrow> world \<Rightarrow> (bytes \<times> nat) flow \<times> msrp_attribute list \<times> world) \<Rightarrow>
     (bytes \<times> nat) flow \<times> msrp_attribute list \<times> world" where
  "emit_then r p k =
     (case r of
        (Next (buf, bytes), as, w) \<Rightarrow> k buf (p + bytes) as w
      | (Goto, as, w) \<Rightarrow> (Goto, as, w)
      | (Fault, as, w) \<Rightarrow> (Fault, as, w))"

definition msrp_emit_all ::
  "os \<Rightarrow> bool \<Rightarrow> bool \<Rightarrow> bytes \<Rightarrow> msrp_attribute list \<Rightarrow> world \<Rightarrow>
     (bytes \<times> nat) flow \<times> msrp_attribute list \<times> world" where
  "msrp_emit_all env lv_all send_empty msgbuf as w =
     (let eof = MAX_FRAME_SIZE;
          talkers = (\<lambda>type buf p as w. let (r, as') = msrp_emit_talkervectors type buf p eof lv_all send_empty as
                                       in (r, as', w));
          domains = (\<lambda>buf p as w. let (r, as') = msrp_emit_domainvectors buf p eof lv_all send_empty as
                                  in (r, as', w))
      in emit_then (talkers MSRP_TALKER_ADV_TYPE msgbuf 15 as w) 15 (\<lambda>buf p as w.
         emit_then (talkers MSRP_TALKER_FAILED_TYPE buf p as w) p (\<lambda>buf p as w.
         if eof \<le> p + 2 then (Goto, as, w)
         else emit_then (msrp_emit_listenvectors env buf p eof lv_all send_empty as w) p (\<lambda>buf p as w.
              emit_then (domains buf p as w) p (\<lambda>buf p as w. (Next (buf, p), as, w))))))"

definition msrp_txpdu ::
  "os \<Rightarrow> int \<Rightarrow> msrp_value mrp_app \<Rightarrow> world \<Rightarrow> int \<times> msrp_value mrp_app \<times> world" where
  "msrp_txpdu env sock db w =
     (let (ok, w1) = malloc env MAX_FRAME_SIZE w
      in if \<not> ok then (-1, db, w1)
         else
           let msgbuf = mrp_frame_buffer MSRP_ADDR (station_addr w) MSRP_ETYPE MSRP_PROT_VER;
               lv_all = lva_tx (lva (mrp_db db));
               db1 = db\<lparr>mrp_db := lva_consume (mrp_db db)\<rparr>
           in case msrp_emit_all env lv_all (send_empty_LeaveAll_flag db) msgbuf (attrib_list db) w1 of
                (Goto, as, w2) \<Rightarrow> (-1, db1\<lparr>attrib_list := as\<rparr>, w2)
              | (Fault, as, w2) \<Rightarrow> (-1, db1\<lparr>attrib_list := as\<rparr>, crash w2)
              | (Next (buf, q), as, w2) \<Rightarrow>
                  let db2 = db1\<lparr>attrib_list := as\<rparr>
                  in if q = 15 then (-1, db2, w2)
                     else if \<not> q + 2 < MAX_FRAME_SIZE then (-1, db2, w2)
                     else case wr_bytes buf q [0, 0] of
                            None \<Rightarrow> (-1, db2, crash w2)
                          | Some frame \<Rightarrow>
                              let (n, w3) = mrpd_send env sock (take (q + 2) frame) w2
                              in (if n \<le> 0 then -1 else 0, db2, w3))"

section \<open>The event handler\<close>

text \<open>Reclamation: whether the node is freed, after telling the clients.\<close>

definition msrp_conditional_reclaim ::
  "os \<Rightarrow> sockaddr_in list \<Rightarrow> msrp_attribute \<Rightarrow> world \<Rightarrow> bool \<times> world" where
  "msrp_conditional_reclaim env cs sattrib w =
     (if reclaimable sattrib
      then (True, snd (msrp_send_notifications env cs sattrib MRP_NOTIFY_LV w))
      else (False, w))"

fun msrp_reclaim_list :: "os \<Rightarrow> sockaddr_in list \<Rightarrow> msrp_attribute list \<Rightarrow> world \<Rightarrow> msrp_attribute list \<times> world" where
  "msrp_reclaim_list env cs [] w = ([], w)"
| "msrp_reclaim_list env cs (a # as) w =
     (let (freed, w1) = msrp_conditional_reclaim env cs a w;
          (as', w2) = msrp_reclaim_list env cs as w1
      in (if freed then as' else a # as', w2))"

definition msrp_reclaim :: "os \<Rightarrow> msrp_database option \<Rightarrow> world \<Rightarrow> int \<times> msrp_database option \<times> world" where
  "msrp_reclaim env d w =
     (case d of
        None \<Rightarrow> (0, None, w)
      | Some db \<Rightarrow>
          let (as, w') = msrp_reclaim_list env (clients (msrp_mrp_db db)) (msrp_attrib_list db) w
          in (0, Some (set_app ((msrp_app db)\<lparr>attrib_list := as\<rparr>) db), w'))"

text \<open>The leave timer: each registrar in turn, its attribute reclaimed at once.\<close>

fun msrp_lvtimer_loop ::
  "os \<Rightarrow> msrp_attribute list \<Rightarrow> mrp_database \<Rightarrow> world \<Rightarrow> msrp_attribute list \<times> mrp_database \<times> world" where
  "msrp_lvtimer_loop env [] db w = ([], db, w)"
| "msrp_lvtimer_loop env (a # as) db w =
     (let (a1, db1, w1) = attrib_registrar env MRP_EVENT_LVTIMER a db w;
          (freed, w2) = msrp_conditional_reclaim env (clients db1) a1 w1;
          (as', db2, w3) = msrp_lvtimer_loop env as db1 w2
      in (if freed then as' else a1 # as', db2, w3))"

text \<open>The switch of \<^verbatim>\<open>msrp_event\<close>, one case each.\<close>

definition msrp_event_LVATIMER :: "os \<Rightarrow> int \<Rightarrow> msrp_value mrp_app \<Rightarrow> world \<Rightarrow> msrp_value mrp_app \<times> world" where
  "msrp_event_LVATIMER env sock db w =
     (let (_, d1, w1) = mrp_lvatimer_stop env (mrp_db db) w;
          (_, d2, w2) = mrp_jointimer_stop env d1 w1;
          (as, d3, w3) = attribs_leaveall env MRP_EVENT_TXLA (\<lambda>_. True) (attrib_list db) d2 w2;
          (_, d4, w4) = mrp_lvatimer_fsm env d3 MRP_EVENT_LVATIMER w3;
          (_, d5, w5) = mrp_lvatimer_fsm env d4 MRP_EVENT_TX w4;
          (_, db6, w6) = msrp_txpdu env sock
             (db\<lparr>mrp_db := d5, attrib_list := as, send_empty_LeaveAll_flag := True\<rparr>) w5
      in (db6\<lparr>send_empty_LeaveAll_flag := False\<rparr>, w6))"

text \<open>A received LeaveAll concerns the attributes of one type.\<close>

definition msrp_event_RLA :: "os \<Rightarrow> msrp_type \<Rightarrow> msrp_value mrp_app \<Rightarrow> world \<Rightarrow> msrp_value mrp_app \<times> world" where
  "msrp_event_RLA env t db w =
     (let (as, d2, w2) = attribs_leaveall env MRP_EVENT_RLA (\<lambda>v. ms_type v = t) (attrib_list db) (mrp_db db) w;
          (_, d3, w3) = mrp_lvatimer_fsm env d2 MRP_EVENT_RLA w2
      in (db\<lparr>mrp_db := d3, attrib_list := as\<rparr>, w3))"

definition msrp_event_TX :: "os \<Rightarrow> int \<Rightarrow> msrp_value mrp_app \<Rightarrow> world \<Rightarrow> msrp_value mrp_app \<times> world" where
  "msrp_event_TX env sock db w =
     (let (_, d1, w1) = mrp_jointimer_stop env (mrp_db db) w;
          as = attribs_applicant (p2pmac w1) MRP_EVENT_TX (attrib_list db);
          (_, db2, w2) = msrp_txpdu env sock (db\<lparr>mrp_db := d1, attrib_list := as\<rparr>) w1
      in if tx_count as \<noteq> 0
         then let (_, d3, w3) = mrp_jointimer_start env (mrp_db db2) w2 in (db2\<lparr>mrp_db := d3\<rparr>, w3)
         else (db2, w2))"

definition msrp_event_LVTIMER :: "os \<Rightarrow> msrp_value mrp_app \<Rightarrow> world \<Rightarrow> msrp_value mrp_app \<times> world" where
  "msrp_event_LVTIMER env db w =
     (let (_, d1, w1) = mrp_lvtimer_stop env (mrp_db db) w;
          (as, d2, w2) = msrp_lvtimer_loop env (attrib_list db) d1 w1
      in (db\<lparr>mrp_db := d2, attrib_list := as\<rparr>, w2))"

text \<open>
  With pruning a talker is of interest only if a client listed its stream or if there is a
  listener of it.
\<close>

definition as_listener :: "msrp_attribute \<Rightarrow> msrp_attribute" where
  "as_listener r = r\<lparr>attribute := (attribute r)\<lparr>ms_type := MSRP_LISTENER_TYPE\<rparr>\<rparr>"

definition msrp_interested :: "msrp_database \<Rightarrow> msrp_attribute \<Rightarrow> bool" where
  "msrp_interested db rattrib \<longleftrightarrow>
     \<not> (is_talker (ms_type (attribute rattrib)) \<and> enable_pruning_of_uninteresting_ids db \<and>
        eui64set_find (interesting_stream_ids db) (eui64_read (StreamID (talk_listen (attribute rattrib)))) = Some None \<and>
        msrp_lookup (msrp_attrib_list db) (as_listener rattrib) = None)"

definition msrp_event_attrib ::
  "os \<Rightarrow> mrp_event \<Rightarrow> msrp_attribute \<Rightarrow> msrp_value mrp_app \<Rightarrow> world \<Rightarrow> msrp_value mrp_app \<times> world" where
  "msrp_event_attrib env event rattrib db w =
     (let (_, d0, w0) = mrp_jointimer_start env (mrp_db db) w;
          (known, w1) = (case msrp_lookup (attrib_list db) rattrib of
                           None \<Rightarrow> (True, w0)
                         | Some i \<Rightarrow> msrp_merge_talker env (attrib_list db) rattrib (attrib_list db ! i) w0);
          (i, as, d1, w2) =
            attribs_event msrp_lookup msrp_add (msrp_merge known) env event rattrib (attrib_list db) d0 w1;
          (freed, w3) = msrp_conditional_reclaim env (clients d1) (as ! i) w2
      in (db\<lparr>mrp_db := d1, attrib_list := if freed then remove_at i as else as\<rparr>, w3))"

text \<open>The loop after the switch: pending notifications are sent to the clients.\<close>

definition msrp_notify :: "os \<Rightarrow> msrp_value mrp_app \<Rightarrow> world \<Rightarrow> msrp_value mrp_app \<times> world" where
  "msrp_notify env db w =
     (let (as, w') = attribs_notify (\<lambda>a n w. snd (msrp_send_notifications env (clients (mrp_db db)) a n w))
                       (attrib_list db) w
      in (db\<lparr>attrib_list := as\<rparr>, w'))"

text \<open>
  The periodic timer is ignored. An attribute event on an uninteresting talker changes nothing.
\<close>

definition msrp_event ::
  "os \<Rightarrow> int \<Rightarrow> mrp_event \<Rightarrow> msrp_attribute option \<Rightarrow> msrp_database \<Rightarrow> world \<Rightarrow>
     int \<times> msrp_database \<times> world" where
  "msrp_event env sock event rattrib db w =
     (let finish = (\<lambda>(app, w). let (app', w') = msrp_notify env app w in (0, set_app app' db, w'));
          app = msrp_app db
      in if event = MRP_EVENT_RLA
         then let (_, d1, w1) = mrp_jointimer_start env (mrp_db app) w; app1 = app\<lparr>mrp_db := d1\<rparr>
              in case rattrib of
                   None \<Rightarrow> (-1, set_app app1 db, w1)
                 | Some r \<Rightarrow> finish (msrp_event_RLA env (ms_type (attribute r)) app1 w1)
         else if event \<in> attrib_events
         then case rattrib of
                None \<Rightarrow> (-1, db, w)
              | Some r \<Rightarrow> finish (if msrp_interested db r then msrp_event_attrib env event r app w else (app, w))
         else finish (case event of
                        MRP_EVENT_LVATIMER \<Rightarrow> msrp_event_LVATIMER env sock app w
                      | MRP_EVENT_TX \<Rightarrow> msrp_event_TX env sock app w
                      | MRP_EVENT_LVTIMER \<Rightarrow> msrp_event_LVTIMER env app w
                      | _ \<Rightarrow> (app, w)))"

section \<open>Reception\<close>

text \<open>
  The code for the four attribute types has the same structure; \<open>t\<close> is the type. A message at
  offset \<open>p\<close> has the length of its attribute list at \<open>p + 2\<close>, which must point at an endmark.
\<close>

definition msrp_recv_msg_check_attrib_list_len :: "bytes \<Rightarrow> nat \<Rightarrow> byte \<Rightarrow> nat \<Rightarrow> bool option" where
  "msrp_recv_msg_check_attrib_list_len buf p attrib_len eof =
     (case rd16 buf (p + 2) of
        None \<Rightarrow> None
      | Some list_len \<Rightarrow>
          if unat list_len < unat attrib_len + 2 + 1 then Some False
          else if eof \<le> p + 2 + unat list_len then Some False
          else case rd buf (p + 2 + unat list_len) of
                 None \<Rightarrow> None
               | Some e0 \<Rightarrow>
                   if e0 \<noteq> 0 then Some False
                   else map_option (\<lambda>e1. e1 = 0) (rd buf (p + 2 + unat list_len + 1)))"

text \<open>The LeaveAll event of a vector header, for an attribute that carries only the type.\<close>

definition msrp_recv_leaveall ::
  "os \<Rightarrow> int \<Rightarrow> msrp_type \<Rightarrow> msrp_database \<Rightarrow> world \<Rightarrow> bool \<times> msrp_database \<times> world" where
  "msrp_recv_leaveall env sock t db w =
     (case msrp_alloc env w of
        (None, w1) \<Rightarrow> (False, db, w1)
      | (Some a, w1) \<Rightarrow>
          let (_, db', w') = msrp_event env sock MRP_EVENT_RLA (Some (a\<lparr>attribute := zero_value t\<rparr>)) db w1
          in (True, db', w'))"

text \<open>The FirstValue of a vector.\<close>

definition talker_of :: "bytes \<Rightarrow> msrpdu_talker_fail" where
  "talker_of b =
     \<lparr>StreamID = take 8 b, Dest_Addr = take 6 (drop 8 b), Vlan_ID = be16 (b ! 14) (b ! 15),
      MaxFrameSize = be16 (b ! 16) (b ! 17), MaxIntervalFrames = be16 (b ! 18) (b ! 19), PriorityAndRank = b ! 20,
      AccumulatedLatency = push_bit 8 (push_bit 8 (push_bit 8 (ucast (b ! 21)) OR ucast (b ! 22)) OR ucast (b ! 23))
                             OR ucast (b ! 24),
      BridgeID = replicate 8 0, FailureCode = 0\<rparr>"

definition msrp_first :: "msrp_type \<Rightarrow> bytes \<Rightarrow> msrp_value" where
  "msrp_first t b =
     (let v = zero_value t
      in case t of
           MSRP_DOMAIN_TYPE \<Rightarrow>
             v\<lparr>ms_domain := \<lparr>SRclassID = b ! 0, SRclassPriority = b ! 1, neighborSRclassPriority = 0,
                             SRclassVID = be16 (b ! 2) (b ! 3)\<rparr>\<rparr>
         | MSRP_LISTENER_TYPE \<Rightarrow> v\<lparr>talk_listen := zero_talker\<lparr>StreamID := b\<rparr>\<rparr>
         | MSRP_TALKER_ADV_TYPE \<Rightarrow> v\<lparr>talk_listen := talker_of b, direction := MSRP_DIRECTION_LISTENER\<rparr>
         | MSRP_TALKER_FAILED_TYPE \<Rightarrow>
             v\<lparr>talk_listen := (talker_of b)\<lparr>BridgeID := take 8 (drop 25 b), FailureCode := b ! 33\<rparr>,
               direction := MSRP_DIRECTION_LISTENER\<rparr>)"

text \<open>The priority of the neighbour is that of the received domain.\<close>

definition recv_value :: "msrp_value \<Rightarrow> u32 \<Rightarrow> msrp_value" where
  "recv_value v d =
     (case ms_type v of
        MSRP_DOMAIN_TYPE \<Rightarrow> v\<lparr>ms_domain := (ms_domain v)\<lparr>neighborSRclassPriority := SRclassPriority (ms_domain v)\<rparr>\<rparr>
      | MSRP_LISTENER_TYPE \<Rightarrow> v\<lparr>substate := d\<rparr>
      | _ \<Rightarrow> v)"

text \<open>
  One event. The state while a vector is read: the value of the next event, the substates
  not yet used (of a listener vector), the database and the world.
\<close>

type_synonym msrp_recv_state = "msrp_value \<times> u32 list \<times> msrp_database \<times> world"

definition msrp_recv_evt ::
  "os \<Rightarrow> int \<Rightarrow> bytes \<Rightarrow> nat \<Rightarrow> msrp_recv_state \<Rightarrow> unit flow \<times> msrp_recv_state" where
  "msrp_recv_evt env sock src e s =
     (case s of (v, decl, db, w) \<Rightarrow>
        let listener = (ms_type v = MSRP_LISTENER_TYPE)
        in if listener \<and> decl = [] then (Fault, s)
           else let d = (if listener then hd decl else 0); decl' = (if listener then tl decl else decl)
           in if listener \<and> d = MSRP_LISTENER_IGNORE then (Next (), msrp_succ v, decl', db, w)
           else case msrp_alloc env w of
                  (None, w1) \<Rightarrow> (Goto, v, decl, db, w1)
                | (Some a, w1) \<Rightarrow>
                    let a = a\<lparr>attribute := recv_value v d, registrar := (registrar a)\<lparr>reg_macaddr := src\<rparr>\<rparr>
                    in case mrpdu_event e of
                         None \<Rightarrow> (Next (), msrp_succ v, decl', db, w1)
                       | Some event \<Rightarrow>
                           let (_, db', w') = msrp_event env sock event (Some a) db w1
                           in (Next (), msrp_succ v, decl', db', w'))"

text \<open>The loop over the event bytes: a byte whose first event is out of range is discarded.\<close>

fun msrp_recv_bytes ::
  "(nat \<Rightarrow> 's \<Rightarrow> unit flow \<times> 's) \<Rightarrow> bytes \<Rightarrow> nat \<Rightarrow> nat \<Rightarrow> nat \<Rightarrow> 's \<Rightarrow> unit flow \<times> 's" where
  "msrp_recv_bytes step buf pos 0 numvalues s = (Next (), s)"
| "msrp_recv_bytes step buf pos (Suc n) numvalues s =
     (case rd buf pos of
        None \<Rightarrow> (Fault, s)
      | Some vect_3pack \<Rightarrow>
          let numvalues_processed = (if numvalues > 3 then 3 else numvalues)
          in if unpack3 vect_3pack ! 0 > MRPDU_LV
             then msrp_recv_bytes step buf (Suc pos) n (numvalues - numvalues_processed) s
             else case recv_evts step (take numvalues_processed (unpack3 vect_3pack)) s of
                    (Next _, s') \<Rightarrow> msrp_recv_bytes step buf (Suc pos) n (numvalues - numvalues_processed) s'
                  | (Goto, s') \<Rightarrow> (Goto, s')
                  | (Fault, s') \<Rightarrow> (Fault, s'))"

text \<open>The substates of a listener vector: four to a byte, behind the event bytes.\<close>

definition unpack4 :: "byte \<Rightarrow> u32 list" where
  "unpack4 vect_4pack =
     (let v0 = unat vect_4pack; v1 = v0 div 4; v2 = v1 div 4; v3 = v2 div 4
      in [word_of_nat (v3 - v3 div 4 * 4), word_of_nat (v2 - v2 div 4 * 4), word_of_nat (v1 - v1 div 4 * 4),
          word_of_nat (v0 - v0 div 4 * 4)])"

definition numvectorbytes4 :: "nat \<Rightarrow> nat" where
  "numvectorbytes4 numvalues =
     (if numvalues \<noteq> numvalues div 4 * 4 then numvalues div 4 + 1 else numvalues div 4)"

text \<open>The array for them is allocated for the first listener vector, and grows by 64 places.\<close>

function listener_grow :: "os \<Rightarrow> nat \<Rightarrow> nat \<Rightarrow> world \<Rightarrow> nat option \<times> world" where
  "listener_grow env n sz w =
     (if n \<le> sz then (Some sz, w)
      else case malloc env ((sz + 64) * 4) w of
             (ok, w') \<Rightarrow> if ok then listener_grow env n (sz + 64) w' else (None, w'))"
  by pat_completeness auto
termination
  by (relation "measure (\<lambda>(env, n, sz, w). n - sz)") auto

declare listener_grow.simps [simp del]

definition msrp_recv_substates ::
  "os \<Rightarrow> bytes \<Rightarrow> nat \<Rightarrow> nat \<Rightarrow> nat \<Rightarrow> nat \<Rightarrow> world \<Rightarrow> (u32 list \<times> nat) flow \<times> world" where
  "msrp_recv_substates env buf eof p numvalues sz w =
     (let vectidx = 8 + numvectorbytes numvalues; n4 = numvectorbytes4 numvalues
      in if eof \<le> p + 2 + (vectidx + n4) then (Goto, w)
         else case listener_grow env numvalues sz w of
                (None, w1) \<Rightarrow> (Goto, w1)
              | (Some sz', w1) \<Rightarrow>
                  (case rd_bytes buf (p + 2 + vectidx) n4 of
                     None \<Rightarrow> (Fault, w1)
                   | Some bs \<Rightarrow> (Next (take numvalues (concat (map unpack4 bs)), sz'), w1)))"

text \<open>
  One vector at offset \<open>p\<close> with header \<open>h\<close>. Only the first LeaveAll of each type in a frame
  counts: \<open>saw\<close> has the types seen.
\<close>

definition msrp_recv_vector ::
  "os \<Rightarrow> int \<Rightarrow> bytes \<Rightarrow> nat \<Rightarrow> bytes \<Rightarrow> msrp_type \<Rightarrow> nat \<Rightarrow> u16 \<Rightarrow> msrp_type list \<Rightarrow> nat \<Rightarrow> msrp_database \<Rightarrow> world \<Rightarrow>
     unit flow \<times> msrp_type list \<times> nat \<times> msrp_database \<times> world" where
  "msrp_recv_vector env sock buf eof src t p h saw sz db w =
     (let numvalues = unat (MRPDU_VECT_NUMVALUES h);
          listener = (t = MSRP_LISTENER_TYPE);
          rla = (MRPDU_VECT_LVA h \<and> t \<notin> set saw);
          saw' = (if rla then t # saw else saw);
          (ok, db1, w1) = (if rla then msrp_recv_leaveall env sock t db w else (True, db, w))
      in if \<not> ok then (Goto, saw', sz, db1, w1)
         else if numvalues = 0 then (Next (), saw', sz, db1, w1)
         else if eof \<le> p + 2 + numvalues div 3 + (if listener then numvalues div 4 else 0)
         then (Goto, saw', sz, db1, w1)
         else case rd_bytes buf (p + 2) (msrp_firstlen t) of
                None \<Rightarrow> (Fault, saw', sz, db1, w1)
              | Some b \<Rightarrow>
                  (case (if listener then msrp_recv_substates env buf eof p numvalues sz w1 else (Next ([], sz), w1)) of
                     (Goto, w2) \<Rightarrow> (Goto, saw', sz, db1, w2)
                   | (Fault, w2) \<Rightarrow> (Fault, saw', sz, db1, w2)
                   | (Next (decl, sz'), w2) \<Rightarrow>
                       (case msrp_recv_bytes (msrp_recv_evt env sock src) buf (p + 2 + msrp_firstlen t)
                               (Suc (numvectorbytes numvalues)) numvalues (msrp_first t b, decl, db1, w2) of
                          (r, _, _, db2, w3) \<Rightarrow> (r, saw', sz', db2, w3))))"

text \<open>The bytes a vector with \<open>n\<close> values takes.\<close>

definition msrp_vector_size :: "msrp_type \<Rightarrow> nat \<Rightarrow> nat" where
  "msrp_vector_size t n =
     2 + msrp_firstlen t + numvectorbytes n + (if t = MSRP_LISTENER_TYPE then numvectorbytes4 n else 0)"

text \<open>The vectors of one message, from offset \<open>p\<close> to the endmark, whose offset is returned.\<close>

function msrp_recv_vectors ::
  "os \<Rightarrow> int \<Rightarrow> bytes \<Rightarrow> nat \<Rightarrow> bytes \<Rightarrow> msrp_type \<Rightarrow> nat \<Rightarrow> msrp_type list \<Rightarrow> nat \<Rightarrow> msrp_database \<Rightarrow> world \<Rightarrow>
     nat flow \<times> msrp_type list \<times> nat \<times> msrp_database \<times> world" where
  "msrp_recv_vectors env sock buf eof src t p saw sz db w =
     (case rd16 buf p of
        None \<Rightarrow> (Fault, saw, sz, db, w)
      | Some h \<Rightarrow>
          if h = 0 then (Next p, saw, sz, db, w)
          else (case msrp_recv_vector env sock buf eof src t p h saw sz db w of
                  (Goto, s) \<Rightarrow> (Goto, s)
                | (Fault, s) \<Rightarrow> (Fault, s)
                | (Next _, saw', sz', db', w') \<Rightarrow>
                    msrp_recv_vectors env sock buf eof src t
                      (p + msrp_vector_size t (unat (MRPDU_VECT_NUMVALUES h))) saw' sz' db' w'))"
  by pat_completeness auto
termination
  by (relation "measure (\<lambda>(env, sock, buf, eof, src, t, p, _). length buf - p)")
     (auto simp: rd16_Some_iff msrp_vector_size_def)

declare msrp_recv_vectors.simps [simp del]

lemma msrp_recv_vectors_advances:
  "fst (msrp_recv_vectors env sock buf eof src t p saw sz db w) = Next q \<Longrightarrow> p \<le> q"
proof (induction env sock buf eof src t p saw sz db w rule: msrp_recv_vectors.induct)
  case (1 env sock buf eof src t p saw sz db w)
  show ?case
  proof (cases "rd16 buf p")
    case None
    then show ?thesis using "1.prems" by (simp add: msrp_recv_vectors.simps [of env sock buf eof src t p])
  next
    case (Some h)
    obtain r saw' sz' db' w' where v: "msrp_recv_vector env sock buf eof src t p h saw sz db w = (r, saw', sz', db', w')"
      by (metis prod_cases5)
    show ?thesis
      using "1.prems" Some v "1.IH" [OF Some _ v [symmetric]]
      by (cases r) (fastforce simp: msrp_recv_vectors.simps [of env sock buf eof src t p] split: if_splits)+
  qed
qed

lemma msrp_recv_vectors_advances':
  "(Next q, s) = msrp_recv_vectors env sock buf eof src t p saw sz db w \<Longrightarrow> p \<le> q"
  by (metis msrp_recv_vectors_advances fst_conv)

definition msrp_type_of :: "byte \<Rightarrow> msrp_type option" where
  "msrp_type_of c =
     find (\<lambda>t. msrp_type_code t = c) [MSRP_DOMAIN_TYPE, MSRP_LISTENER_TYPE, MSRP_TALKER_ADV_TYPE, MSRP_TALKER_FAILED_TYPE]"

text \<open>
  The message list, until the end of the frame or two endmarks. A message with a bad list
  length is skipped as if it had one vector.
\<close>

function msrp_recv_messages ::
  "os \<Rightarrow> int \<Rightarrow> bytes \<Rightarrow> nat \<Rightarrow> bytes \<Rightarrow> nat \<Rightarrow> nat \<Rightarrow> msrp_type list \<Rightarrow> nat \<Rightarrow> msrp_database \<Rightarrow> world \<Rightarrow>
     unit flow \<times> msrp_database \<times> world" where
  "msrp_recv_messages env sock buf eof src p endmarks saw sz db w =
     (if \<not> p + 2 < eof then (Next (), db, w)
      else case rd_bytes buf p 2 of
             None \<Rightarrow> (Fault, db, w)
           | Some msg \<Rightarrow>
               let AttributeType = msg ! 0; AttributeLength = msg ! 1
               in if AttributeType = 0 \<and> AttributeLength = 0
                  then if endmarks + 1 < 2
                       then msrp_recv_messages env sock buf eof src (p + 2) (endmarks + 1) saw sz db w
                       else (Next (), db, w)
                  else (case msrp_type_of AttributeType of
                          None \<Rightarrow> (Goto, db, w)
                        | Some t \<Rightarrow>
                            if unat AttributeLength \<noteq> msrp_firstlen t then (Goto, db, w)
                            else (case msrp_recv_msg_check_attrib_list_len buf p AttributeLength eof of
                                    None \<Rightarrow> (Fault, db, w)
                                  | Some False \<Rightarrow>
                                      (case rd16 buf (p + 4) of
                                         None \<Rightarrow> (Fault, db, w)
                                       | Some h \<Rightarrow>
                                           msrp_recv_messages env sock buf eof src
                                             (p + 4 + (let n = unat (MRPDU_VECT_NUMVALUES h)
                                                       in 2 + msrp_firstlen t + (n + 2) div 3 +
                                                          (if t = MSRP_LISTENER_TYPE then (n + 3) div 4 else 0)))
                                             0 saw sz db w)
                                  | Some True \<Rightarrow>
                                      (case msrp_recv_vectors env sock buf eof src t (p + 4) saw sz db w of
                                         (Goto, _, _, db', w') \<Rightarrow> (Goto, db', w')
                                       | (Fault, _, _, db', w') \<Rightarrow> (Fault, db', w')
                                       | (Next q, saw', sz', db', w') \<Rightarrow>
                                           msrp_recv_messages env sock buf eof src q 0 saw' sz' db' w'))))"
  by pat_completeness auto
termination
proof (relation "measure (\<lambda>(env, sock, buf, eof, src, p, _). eof - p)", goal_cases)
  case 1
  show ?case by simp
next
  case 2
  then show ?case by simp
next
  case 3
  then show ?case by (auto dest!: msrp_recv_vectors_advances')
next
  case 4
  then show ?case by simp
qed

declare msrp_recv_messages.simps [simp del]

definition msrp_recv_msg ::
  "os \<Rightarrow> int \<Rightarrow> bytes \<Rightarrow> msrp_database \<Rightarrow> world \<Rightarrow> int \<times> msrp_database \<times> world" where
  "msrp_recv_msg env sock frame db w =
     (let msgbuf = recv_buffer frame; bytes = recv_count frame
      in if bytes < 17 then (-1, db, w)
         else if be16 (msgbuf ! 12) (msgbuf ! 13) \<noteq> MSRP_ETYPE then (-1, db, w)
         else if take 6 msgbuf \<noteq> MSRP_ADDR then (-1, db, w)
         else case msrp_recv_messages env sock msgbuf bytes (take 6 (drop 6 msgbuf)) 15 0 [] 0 db w of
                (Next _, db', w') \<Rightarrow> (0, db', w')
              | (Goto, db', w') \<Rightarrow> (-1, db', w')
              | (Fault, db', w') \<Rightarrow> (-1, db', crash w'))"

section \<open>Commands of local clients\<close>

definition msrp_dump_line :: "msrp_attribute \<Rightarrow> string" where
  "msrp_dump_line attrib =
     (let v = attribute attrib;
          variant = snprintf BUFSIZE
            (case ms_type v of
               MSRP_LISTENER_TYPE \<Rightarrow> listener_variant v
             | MSRP_DOMAIN_TYPE \<Rightarrow> domain_variant (ms_domain v)
             | _ \<Rightarrow> talker_variant (talk_listen v) @ failure_variant (talk_listen v));
          mrp_state = mrp_decode_state (registrar attrib) (applicant attrib) 8;
          regsrc = snprintf BUFSIZE (''R='' @ fmt_hex_bytes (reg_macaddr (registrar attrib)) @ '' '' @ mrp_state)
      in snprintf BUFSIZE (variant @ '' '' @ regsrc @ newline))"

definition msrp_dumptable :: "os \<Rightarrow> sockaddr_in \<Rightarrow> msrp_database \<Rightarrow> world \<Rightarrow> int \<times> world" where
  "msrp_dumptable env client db w =
     (let (ok, w1) = malloc env MAX_MRPD_CMDSZ w
      in if \<not> ok then (-1, w1)
         else let (ok_stage, w2) = malloc env BUFSIZE w1;
                  (ok_variant, w3) = malloc env BUFSIZE w2;
                  (ok_regsrc, w4) = malloc env BUFSIZE w3
              in if \<not> ok_stage \<or> \<not> ok_variant \<or> \<not> ok_regsrc then (0, w4)
                 else if msrp_attrib_list db = []
                 then (0, snd (mrpd_send_ctl_msg env client (''MSRP:Empty'' @ newline) MAX_MRPD_CMDSZ w4))
                 else (case mrp_dump_lines MAX_MRPD_CMDSZ 0 [] (map msrp_dump_line (msrp_attrib_list db)) of
                         None \<Rightarrow> (0, crash w4)
                       | Some msgbuf \<Rightarrow> (0, snd (mrpd_send_ctl_msg env client msgbuf MAX_MRPD_CMDSZ w4))))"

text \<open>The destinations of the parser keep their zero when a parameter was not stored.\<close>

fun pv_bytes :: "nat \<Rightarrow> parse_value option \<Rightarrow> bytes" where
  "pv_bytes n (Some (V_bytes b)) = b"
| "pv_bytes n _ = replicate n 0"

fun pv_u8 :: "parse_value option \<Rightarrow> byte" where
  "pv_u8 (Some (V_u8 v)) = v"
| "pv_u8 _ = 0"

fun pv_u16 :: "parse_value option \<Rightarrow> u16" where
  "pv_u16 (Some (V_u16 v)) = v"
| "pv_u16 _ = 0"

fun pv_u32 :: "parse_value option \<Rightarrow> u32" where
  "pv_u32 (Some (V_u32 v)) = v"
| "pv_u32 _ = 0"

definition parse_at :: "nat \<Rightarrow> parse_value option list \<Rightarrow> parse_value option" where
  "parse_at i vs = (if i < length vs then vs ! i else None)"

definition talker_specs :: "parse_param list" where
  "talker_specs =
     [(''S='', parse_c64), (''A='', parse_mac), (''V='', parse_u16_04x), (''Z='', parse_u16),
      (''I='', parse_u16), (''P='', parse_u8), (''L='', parse_u32)]"

definition talker_params :: "parse_value option list \<Rightarrow> msrpdu_talker_fail" where
  "talker_params vs =
     \<lparr>StreamID = pv_bytes 8 (parse_at 0 vs), Dest_Addr = pv_bytes 6 (parse_at 1 vs), Vlan_ID = pv_u16 (parse_at 2 vs),
      MaxFrameSize = pv_u16 (parse_at 3 vs), MaxIntervalFrames = pv_u16 (parse_at 4 vs),
      PriorityAndRank = pv_u8 (parse_at 5 vs), AccumulatedLatency = pv_u32 (parse_at 6 vs),
      BridgeID = pv_bytes 8 (parse_at 7 vs), FailureCode = pv_u8 (parse_at 8 vs)\<rparr>"

definition msrp_cmd_parse_join_or_new_stream :: "string \<Rightarrow> int \<times> msrpdu_talker_fail" where
  "msrp_cmd_parse_join_or_new_stream buf =
     (if length buf < 22 then (-1, zero_talker)
      else case parse (drop 4 buf) talker_specs of (rc, _, vs) \<Rightarrow> (rc, talker_params vs))"

definition msrp_cmd_parse_join_or_new_stream_failure :: "string \<Rightarrow> int \<times> msrpdu_talker_fail" where
  "msrp_cmd_parse_join_or_new_stream_failure buf =
     (if length buf < 47 then (-1, zero_talker)
      else case parse (drop 4 buf) (talker_specs @ [(''B='', parse_c64), (''C='', parse_u8)]) of
             (rc, _, vs) \<Rightarrow> (rc, talker_params vs))"

definition msrp_cmd_parse_leave_stream :: "string \<Rightarrow> int \<times> msrpdu_talker_fail" where
  "msrp_cmd_parse_leave_stream buf =
     (if length buf < 22 then (-1, zero_talker)
      else case parse (drop 4 buf) [(''S='', parse_c64)] of
             (rc, _, vs) \<Rightarrow> (rc, zero_talker\<lparr>StreamID := pv_bytes 8 (parse_at 0 vs)\<rparr>))"

definition msrp_cmd_parse_report_listener_status :: "string \<Rightarrow> int \<times> msrpdu_talker_fail \<times> u32" where
  "msrp_cmd_parse_report_listener_status buf =
     (if length buf < 26 then (-1, zero_talker, 0)
      else case parse (drop 4 buf) [(''L='', parse_c64), (''D='', parse_u32)] of
             (rc, _, vs) \<Rightarrow> (rc, zero_talker\<lparr>StreamID := pv_bytes 8 (parse_at 0 vs)\<rparr>, pv_u32 (parse_at 1 vs)))"

definition msrp_cmd_parse_withdraw_listener_status :: "string \<Rightarrow> int \<times> msrpdu_talker_fail" where
  "msrp_cmd_parse_withdraw_listener_status buf =
     (if length buf < 22 then (-1, zero_talker)
      else case parse (drop 4 buf) [(''L='', parse_c64)] of
             (rc, _, vs) \<Rightarrow> (rc, zero_talker\<lparr>StreamID := pv_bytes 8 (parse_at 0 vs)\<rparr>))"

definition msrp_cmd_parse_domain_status :: "string \<Rightarrow> int \<times> msrpdu_domain" where
  "msrp_cmd_parse_domain_status buf =
     (if length buf < 18 then (-1, zero_domain)
      else case parse (drop 4 buf) [(''C='', parse_u8), (''P='', parse_u8), (''V='', parse_u16_04x)] of
             (rc, _, vs) \<Rightarrow> (rc, \<lparr>SRclassID = pv_u8 (parse_at 0 vs), SRclassPriority = pv_u8 (parse_at 1 vs),
                                  neighborSRclassPriority = 0, SRclassVID = pv_u16 (parse_at 2 vs)\<rparr>))"

definition msrp_cmd_parse_stream_id :: "string \<Rightarrow> int \<times> bytes" where
  "msrp_cmd_parse_stream_id buf =
     (if length buf < 16 + 4 then (-1, replicate 8 0)
      else case parse (drop 4 buf) [(''S='', parse_c64)] of (rc, _, vs) \<Rightarrow> (rc, pv_bytes 8 (parse_at 0 vs)))"

text \<open>An event on a new attribute with the value \<open>v\<close>: the operations behind the commands.\<close>

definition msrp_cmd_event ::
  "os \<Rightarrow> int \<Rightarrow> mrp_event \<Rightarrow> msrp_value \<Rightarrow> msrp_database \<Rightarrow> world \<Rightarrow> int \<times> msrp_database \<times> world" where
  "msrp_cmd_event env sock event v db w =
     (case msrp_alloc env w of
        (None, w1) \<Rightarrow> (-1, db, w1)
      | (Some a, w1) \<Rightarrow>
          let (_, db', w') = msrp_event env sock event (Some (a\<lparr>attribute := v\<rparr>)) db w1 in (0, db', w'))"

definition msrp_cmd_join_or_new_stream ::
  "os \<Rightarrow> int \<Rightarrow> msrpdu_talker_fail \<Rightarrow> msrp_type \<Rightarrow> mrp_event \<Rightarrow> msrp_database \<Rightarrow> world \<Rightarrow>
     int \<times> msrp_database \<times> world" where
  "msrp_cmd_join_or_new_stream env sock talker_ad attrib_type event db w =
     msrp_cmd_event env sock event ((zero_value attrib_type)\<lparr>talk_listen := talker_ad\<rparr>) db w"

definition msrp_cmd_leave_stream ::
  "os \<Rightarrow> int \<Rightarrow> msrpdu_talker_fail \<Rightarrow> msrp_database \<Rightarrow> world \<Rightarrow> int \<times> msrp_database \<times> world" where
  "msrp_cmd_leave_stream env sock talker_ad db w =
     msrp_cmd_event env sock MRP_EVENT_LV ((zero_value MSRP_TALKER_ADV_TYPE)\<lparr>talk_listen := talker_ad\<rparr>) db w"

definition msrp_cmd_report_listener_status ::
  "os \<Rightarrow> int \<Rightarrow> msrpdu_talker_fail \<Rightarrow> u32 \<Rightarrow> msrp_database \<Rightarrow> world \<Rightarrow> int \<times> msrp_database \<times> world" where
  "msrp_cmd_report_listener_status env sock talker_ad sub db w =
     msrp_cmd_event env sock MRP_EVENT_NEW
       ((zero_value MSRP_LISTENER_TYPE)\<lparr>talk_listen := talker_ad, substate := sub, direction := MSRP_DIRECTION_LISTENER\<rparr>)
       db w"

text \<open>The substate of an existing listener is kept.\<close>

definition msrp_cmd_withdraw_listener_status ::
  "os \<Rightarrow> int \<Rightarrow> msrpdu_talker_fail \<Rightarrow> msrp_database \<Rightarrow> world \<Rightarrow> int \<times> msrp_database \<times> world" where
  "msrp_cmd_withdraw_listener_status env sock talker_ad db w =
     (let v = (zero_value MSRP_LISTENER_TYPE)\<lparr>talk_listen := talker_ad\<rparr>;
          sub = (case msrp_lookup (msrp_attrib_list db) (fresh_attribute v) of
                   None \<Rightarrow> 0 | Some i \<Rightarrow> substate (attribute (msrp_attrib_list db ! i)))
      in msrp_cmd_event env sock MRP_EVENT_LV (v\<lparr>substate := sub\<rparr>) db w)"

definition msrp_cmd_report_domain_status ::
  "os \<Rightarrow> int \<Rightarrow> msrpdu_domain \<Rightarrow> bool \<Rightarrow> msrp_database \<Rightarrow> world \<Rightarrow> int \<times> msrp_database \<times> world" where
  "msrp_cmd_report_domain_status env sock d report db w =
     msrp_cmd_event env sock (if report then MRP_EVENT_JOIN else MRP_EVENT_LV)
       ((zero_value MSRP_DOMAIN_TYPE)\<lparr>ms_domain := d\<lparr>neighborSRclassPriority := SRclassPriority d\<rparr>\<rparr>) db w"

text \<open>The talker attributes of a stream are unlinked and freed.\<close>

definition msrp_remove_talkers :: "bytes \<Rightarrow> msrp_database \<Rightarrow> msrp_database" where
  "msrp_remove_talkers sid db =
     set_app ((msrp_app db)\<lparr>attrib_list := filter (\<lambda>a. \<not> (is_talker (ms_type (attribute a)) \<and>
       StreamID (talk_listen (attribute a)) = sid)) (msrp_attrib_list db)\<rparr>) db"

text \<open>The two failure labels, and the command functions, whose failure is an internal error.\<close>

definition msrp_error ::
  "os \<Rightarrow> sockaddr_in \<Rightarrow> string \<Rightarrow> string \<Rightarrow> msrp_database \<Rightarrow> world \<Rightarrow> int \<times> msrp_database \<times> world" where
  "msrp_error env client tag buf db w = (-1, db, respond env client 64 (tag @ c_string buf) w)"

definition msrp_internal ::
  "os \<Rightarrow> sockaddr_in \<Rightarrow> string \<Rightarrow> int \<times> msrp_database \<times> world \<Rightarrow> int \<times> msrp_database \<times> world" where
  "msrp_internal env client buf r =
     (case r of (rc, db, w) \<Rightarrow> if rc \<noteq> 0 then msrp_error env client ''ERI '' buf db w else (0, db, w))"

text \<open>The commands on the set of interesting streams.\<close>

definition msrp_cmd_add_interesting ::
  "os \<Rightarrow> string \<Rightarrow> sockaddr_in \<Rightarrow> msrp_database \<Rightarrow> world \<Rightarrow> int \<times> msrp_database \<times> world" where
  "msrp_cmd_add_interesting env buf client db w =
     (if \<not> enable_pruning_of_uninteresting_ids db then msrp_error env client ''ERP '' buf db w
      else case msrp_cmd_parse_stream_id buf of
             (rc, sid) \<Rightarrow>
               if rc \<noteq> 0 then msrp_error env client ''ERP '' buf db w
               else if eui64set_find (interesting_stream_ids db) (eui64_read sid) \<noteq> Some None
               then msrp_error env client ''ERI '' buf db w
               else (case eui64set_insert_and_sort (interesting_stream_ids db) (eui64_read sid) 0 of
                       None \<Rightarrow> (-1, db, crash w)
                     | Some (r, ids) \<Rightarrow>
                         let db' = db\<lparr>interesting_stream_ids := ids\<rparr>
                         in if r = 0 then msrp_error env client ''ERI '' buf db' w else (0, db', w)))"

definition msrp_cmd_remove_interesting ::
  "os \<Rightarrow> string \<Rightarrow> sockaddr_in \<Rightarrow> msrp_database \<Rightarrow> world \<Rightarrow> int \<times> msrp_database \<times> world" where
  "msrp_cmd_remove_interesting env buf client db w =
     (if \<not> enable_pruning_of_uninteresting_ids db then msrp_error env client ''ERP '' buf db w
      else case msrp_cmd_parse_stream_id buf of
             (rc, sid) \<Rightarrow>
               if rc \<noteq> 0 then msrp_error env client ''ERP '' buf db w
               else (case eui64set_remove_and_sort (interesting_stream_ids db) (eui64_read sid) of
                       None \<Rightarrow> (-1, db, crash w)
                     | Some (r, ids, _) \<Rightarrow>
                         let db' = db\<lparr>interesting_stream_ids := ids\<rparr>;
                             listener = (zero_value MSRP_LISTENER_TYPE)\<lparr>talk_listen := zero_talker\<lparr>StreamID := sid\<rparr>\<rparr>
                         in if r = 0 then msrp_error env client ''ERI '' buf db' w
                            else (0, if msrp_lookup (msrp_attrib_list db') (fresh_attribute listener) = None
                                     then msrp_remove_talkers sid db' else db', w)))"

text \<open>Withdrawing a listener also drops the talkers of the stream when they are of no interest any more.\<close>

definition msrp_cmd_S_L ::
  "os \<Rightarrow> int \<Rightarrow> string \<Rightarrow> sockaddr_in \<Rightarrow> msrp_database \<Rightarrow> world \<Rightarrow> int \<times> msrp_database \<times> world" where
  "msrp_cmd_S_L env sock buf client db w =
     (case msrp_cmd_parse_withdraw_listener_status buf of
        (rc, t) \<Rightarrow>
          if rc \<noteq> 0 then msrp_error env client ''ERP '' buf db w
          else (case msrp_cmd_withdraw_listener_status env sock t db w of
                  (rc, db', w') \<Rightarrow>
                    if rc \<noteq> 0 then msrp_error env client ''ERI '' buf db' w'
                    else (0, if enable_pruning_of_uninteresting_ids db' \<and>
                                eui64set_find (interesting_stream_ids db') (eui64_read (StreamID t)) = Some None
                             then msrp_remove_talkers (StreamID t) db' else db', w')))"

definition msrp_cmd_stream ::
  "os \<Rightarrow> int \<Rightarrow> string \<Rightarrow> sockaddr_in \<Rightarrow> msrp_database \<Rightarrow> world \<Rightarrow> int \<times> msrp_database \<times> world" where
  "msrp_cmd_stream env sock buf client db w =
     (let failed = (strstr (c_string buf) ''B='' \<noteq> None);
          (rc, t) = (if failed then msrp_cmd_parse_join_or_new_stream_failure buf
                     else msrp_cmd_parse_join_or_new_stream buf)
      in if rc \<noteq> 0 then msrp_error env client ''ERP '' buf db w
         else msrp_internal env client buf
           (msrp_cmd_join_or_new_stream env sock t (if failed then MSRP_TALKER_FAILED_TYPE else MSRP_TALKER_ADV_TYPE)
              (if buf ! 2 = CHR ''?'' then MRP_EVENT_JOIN else MRP_EVENT_NEW) db w))"

definition msrp_cmd_domain ::
  "os \<Rightarrow> int \<Rightarrow> bool \<Rightarrow> string \<Rightarrow> sockaddr_in \<Rightarrow> msrp_database \<Rightarrow> world \<Rightarrow> int \<times> msrp_database \<times> world" where
  "msrp_cmd_domain env sock report buf client db w =
     (case msrp_cmd_parse_domain_status buf of
        (rc, d) \<Rightarrow>
          if rc \<noteq> 0 then msrp_error env client ''ERP '' buf db w
          else msrp_internal env client buf (msrp_cmd_report_domain_status env sock d report db w))"

definition msrp_cmd_S_plus_L ::
  "os \<Rightarrow> int \<Rightarrow> string \<Rightarrow> sockaddr_in \<Rightarrow> msrp_database \<Rightarrow> world \<Rightarrow> int \<times> msrp_database \<times> world" where
  "msrp_cmd_S_plus_L env sock buf client db w =
     (case msrp_cmd_parse_report_listener_status buf of
        (rc, t, sub) \<Rightarrow>
          if rc \<noteq> 0 then msrp_error env client ''ERP '' buf db w
          else msrp_internal env client buf (msrp_cmd_report_listener_status env sock t sub db w))"

definition msrp_cmd_S_minus ::
  "os \<Rightarrow> int \<Rightarrow> string \<Rightarrow> sockaddr_in \<Rightarrow> msrp_database \<Rightarrow> world \<Rightarrow> int \<times> msrp_database \<times> world" where
  "msrp_cmd_S_minus env sock buf client db w =
     (case msrp_cmd_parse_leave_stream buf of
        (rc, t) \<Rightarrow>
          if rc \<noteq> 0 then msrp_error env client ''ERP '' buf db w
          else msrp_internal env client buf (msrp_cmd_leave_stream env sock t db w))"

definition msrp_cmd ::
  "os \<Rightarrow> int \<Rightarrow> string \<Rightarrow> sockaddr_in \<Rightarrow> msrp_database \<Rightarrow> world \<Rightarrow> int \<times> msrp_database \<times> world" where
  "msrp_cmd env sock buf client db w =
     (if length buf < 3 then (-1, db, w)
      else if buf ! 0 \<noteq> CHR ''S'' \<and> buf ! 0 \<noteq> CHR ''I'' then (-1, db, w)
      else if take 3 buf = ''S??'' then (0, db, snd (msrp_dumptable env client db w))
      else if take 3 buf = ''S-L'' then msrp_cmd_S_L env sock buf client db w
      else if take 3 buf = ''S-D'' then msrp_cmd_domain env sock False buf client db w
      else if take 3 buf = ''S--'' then msrp_cmd_S_minus env sock buf client db w
      else if take 3 buf = ''S+L'' then msrp_cmd_S_plus_L env sock buf client db w
      else if take 3 buf = ''S+D'' then msrp_cmd_domain env sock True buf client db w
      else if take 3 buf = ''S+?'' \<or> take 3 buf = ''S++'' then msrp_cmd_stream env sock buf client db w
      else if take 3 buf = ''I+S'' then msrp_cmd_add_interesting env buf client db w
      else if take 3 buf = ''I-S'' then msrp_cmd_remove_interesting env buf client db w
      else if take 3 buf = ''I-A''
      then (0, db\<lparr>interesting_stream_ids := eui64set_clear (interesting_stream_ids db)\<rparr>, w)
      else msrp_error env client ''ERC MSRP '' buf db w)"

definition set_clients :: "sockaddr_in list \<Rightarrow> msrp_database \<Rightarrow> msrp_database" where
  "set_clients cs db = set_app ((msrp_app db)\<lparr>mrp_db := (msrp_mrp_db db)\<lparr>clients := cs\<rparr>\<rparr>) db"

text \<open>With pruning there is one client at most.\<close>

definition msrp_recv_cmd ::
  "os \<Rightarrow> int \<Rightarrow> string \<Rightarrow> sockaddr_in \<Rightarrow> msrp_database option \<Rightarrow> world \<Rightarrow>
     int \<times> msrp_database option \<times> world" where
  "msrp_recv_cmd env sock buf client d w =
     (case d of
        None \<Rightarrow> (-1, None, respond env client 64 (''ERC MSRP_db '' @ c_string buf @ newline) w)
      | Some db0 \<Rightarrow>
          let (_, cs, w1) = mrp_client_add env (clients (msrp_mrp_db db0)) client w
          in if enable_pruning_of_uninteresting_ids db0 \<and> 1 < mrp_client_count cs
             then let msg = ''ERR pruning enabled too many clients'' @ newline
                  in (-1, Some (set_clients (mrp_client_delete cs client) db0),
                      snd (mrpd_send_ctl_msg env client msg (Suc (length msg)) w1))
             else (case msrp_cmd env sock buf client (set_clients cs db0) w1 of (rc, db, w2) \<Rightarrow> (rc, Some db, w2)))"

section \<open>Initialisation and the end of a client\<close>

text \<open>Return value, \<^verbatim>\<open>msrp_socket\<close> and \<^verbatim>\<open>MSRP_db\<close>.\<close>

definition msrp_init ::
  "os \<Rightarrow> bool \<Rightarrow> int \<Rightarrow> bool \<Rightarrow> world \<Rightarrow> int \<times> int \<times> msrp_database option \<times> world" where
  "msrp_init env msrp_enable max_ids enable_pruning w =
     (if \<not> msrp_enable then (0, -1, None, w)
      else let (rc, sock, w1) = mrpd_init_protocol_socket env MSRP_ETYPE MSRP_ADDR w
      in if rc < 0 then (-1, sock, None, w1)
      else let (ok, w2) = malloc env 96 w1
      in if \<not> ok then (-1, -1, None, snd (mrpd_close_socket env sock w2))
      else let n = (if max_ids < 8 then 8 else max_ids);
               (calloc_ok, w3) = malloc env (nat n * 16) w2;
               (rc, ids) = eui64set_init calloc_ok n
      in if rc < 0 then (-1, -1, None, snd (mrpd_close_socket env sock w3))
      else let (rc, d, w4) = mrpd_init_timers env cleared_database w3
      in if rc < 0 then (-1, -1, None, snd (mrpd_close_socket env sock w4))
      else let (_, d', w5) = mrp_lvatimer_fsm env d MRP_EVENT_BEGIN w4
           in (0, sock, Some \<lparr>msrp_app = \<lparr>mrp_db = d', attrib_list = [], send_empty_LeaveAll_flag = False\<rparr>,
                              interesting_stream_ids = ids, enable_pruning_of_uninteresting_ids = enable_pruning\<rparr>, w5))"

text \<open>The memory of the database is released; it may not be used any more.\<close>

definition msrp_reset :: "msrp_database option \<Rightarrow> msrp_database option" where
  "msrp_reset d = None"

definition msrp_interesting_id_count :: "msrp_database option \<Rightarrow> nat" where
  "msrp_interesting_id_count d =
     (case d of None \<Rightarrow> 0 | Some db \<Rightarrow> eui64set_num_entries (interesting_stream_ids db))"

definition msrp_bye :: "sockaddr_in \<Rightarrow> msrp_database option \<Rightarrow> msrp_database option" where
  "msrp_bye client d =
     map_option (\<lambda>db. set_clients (mrp_client_delete (clients (msrp_mrp_db db)) client) db) d"

end
