(* ===== verification/Maap.thy ===== *)
theory Maap
  imports Eui64set
begin

text \<open>
  The MAC address acquisition protocol (\<^verbatim>\<open>daemons/maap/common/maap_protocol.c\<close>) with the socket
  and thread wrappers of \<^verbatim>\<open>daemons/maap/linux/maap_linux.c\<close>. The state machine
  \<^verbatim>\<open>state_transit\<close> is a function of the packets the socket delivers; the announcing thread that
  runs beside it, the mutex they share and the cancellation of the thread are a step relation
  over the same operations.
\<close>

section \<open>Packets\<close>

record ethhedr =
  h_dest :: bytes
  h_source :: bytes
  eth_type :: u16

record maap_pdu =
  subtype :: "7 word"
  cd :: "1 word"
  message_type :: "4 word"
  pdu_version :: "3 word"
  sv :: "1 word"
  maap_version_data_length :: u16
  stream_id :: u64
  requested_start_address :: bytes
  requested_count :: u16
  conflict_start_address :: bytes
  conflict_count :: u16

record ethpkt =
  header :: ethhedr
  pdu_data :: maap_pdu

definition MAAP_PROBE :: "4 word" where "MAAP_PROBE = 1"
definition MAAP_DEFEND :: "4 word" where "MAAP_DEFEND = 2"
definition MAAP_ANNOUNCE :: "4 word" where "MAAP_ANNOUNCE = 3"

lemmas maap_msg_defs = MAAP_PROBE_def MAAP_DEFEND_def MAAP_ANNOUNCE_def

text \<open>The layout the compiler gives the packed structure on a little endian machine.\<close>

definition le16 :: "u16 \<Rightarrow> bytes" where
  "le16 v = [lo8 v, hi8 v]"

definition le64 :: "u64 \<Rightarrow> bytes" where
  "le64 v = rev (eui64_write v)"

definition bytes_of_ethpkt :: "ethpkt \<Rightarrow> bytes" where
  "bytes_of_ethpkt p =
     (let d = pdu_data p in
      h_dest (header p) @ h_source (header p) @ le16 (eth_type (header p)) @
      [ucast (subtype d) OR push_bit 7 (ucast (cd d)),
       ucast (message_type d) OR push_bit 4 (ucast (pdu_version d)) OR push_bit 7 (ucast (sv d))] @
      le16 (maap_version_data_length d) @ le64 (stream_id d) @
      requested_start_address d @ le16 (requested_count d) @
      conflict_start_address d @ le16 (conflict_count d))"

definition ETH_PKT_LEN :: nat where "ETH_PKT_LEN = 42"

definition ethpkt_of_bytes :: "bytes \<Rightarrow> ethpkt" where
  "ethpkt_of_bytes b =
     \<lparr>header = \<lparr>h_dest = take 6 b, h_source = take 6 (drop 6 b), eth_type = be16 (b ! 13) (b ! 12)\<rparr>,
      pdu_data =
        \<lparr>subtype = ucast (b ! 14), cd = ucast (drop_bit 7 (b ! 14)),
         message_type = ucast (b ! 15), pdu_version = ucast (drop_bit 4 (b ! 15)), sv = ucast (drop_bit 7 (b ! 15)),
         maap_version_data_length = be16 (b ! 17) (b ! 16),
         stream_id = eui64_read (rev (take 8 (drop 18 b))),
         requested_start_address = take 6 (drop 26 b), requested_count = be16 (b ! 33) (b ! 32),
         conflict_start_address = take 6 (drop 34 b), conflict_count = be16 (b ! 41) (b ! 40)\<rparr>\<rparr>"

text \<open>\<^verbatim>\<open>recvfrom\<close> into the cleared packet; longer frames are cut.\<close>

definition recv_packet :: "bytes \<Rightarrow> ethpkt" where
  "recv_packet b = ethpkt_of_bytes (take ETH_PKT_LEN (b @ replicate ETH_PKT_LEN 0))"

section \<open>State\<close>

datatype state_t = INITIAL | PROBE | DEFEND

record maap_info =
  ethpkt :: ethpkt
  ethpkt_rx :: ethpkt
  state :: state_t
  src_mac :: bytes
  requested_mac_add :: bytes
  requested_mac_count :: u16
  acquired_mac_add :: bytes
  acquired_mac_count :: u16
  conflict_mac_add :: bytes
  conflict_mac_count :: u16

text \<open>
  The announcing threads, the last one the one \<^verbatim>\<open>thread\<close> names: asleep, waiting for the mutex,
  in the critical section before \<^verbatim>\<open>sendto\<close>, or terminated; and whether the thread was cancelled.
\<close>

datatype thread_pc = Sleeping | Wanting | Holding | Dead

record maap =
  info :: maap_info
  sent :: "ethpkt list"
  maap_shm_mem :: bytes
  threads :: "(thread_pc \<times> bool) list"
  locked :: bool

definition map_info :: "(maap_info \<Rightarrow> maap_info) \<Rightarrow> maap \<Rightarrow> maap" where
  "map_info f m = m\<lparr>info := f (info m)\<rparr>"

section \<open>Operations\<close>

text \<open>\<open>r\<close> is what \<^verbatim>\<open>rand\<close> returns.\<close>

definition rand_range :: "nat \<Rightarrow> int \<Rightarrow> int \<Rightarrow> int" where
  "rand_range r min_n max_n = int r mod (max_n - min_n + 1) + min_n"

definition hton_s :: "u16 \<Rightarrow> u16" where
  "hton_s val = be16 (lo8 val) (hi8 val)"

definition get_multicast_mac_adr :: bytes where
  "get_multicast_mac_adr = [0x91, 0xE0, 0xF0, 0x00, 0xFF, 0x00]"

definition generate_address :: "nat \<Rightarrow> maap_info \<Rightarrow> maap_info" where
  "generate_address r mi =
     (let val = word_of_int (rand_range r 0 0xFDFF) :: u16 in
      mi\<lparr>requested_mac_add := [0x91, 0xE0, 0xF0, 0x00, ucast (drop_bit 8 (val AND 0xff00)), ucast (val AND 0x00ff)]\<rparr>)"

definition map_pdu :: "(maap_pdu \<Rightarrow> maap_pdu) \<Rightarrow> maap_info \<Rightarrow> maap_info" where
  "map_pdu f mi = mi\<lparr>ethpkt := (ethpkt mi)\<lparr>pdu_data := f (pdu_data (ethpkt mi))\<rparr>\<rparr>"

definition map_header :: "(ethhedr \<Rightarrow> ethhedr) \<Rightarrow> maap_info \<Rightarrow> maap_info" where
  "map_header f mi = mi\<lparr>ethpkt := (ethpkt mi)\<lparr>header := f (header (ethpkt mi))\<rparr>\<rparr>"

definition prepare_ethpkt :: "4 word \<Rightarrow> maap_info \<Rightarrow> maap_info" where
  "prepare_ethpkt msg_type mi0 =
     (let mi = map_pdu (message_type_update (\<lambda>_. msg_type)) mi0 in
      if msg_type = MAAP_PROBE
      then map_header (\<lambda>h. h\<lparr>h_dest := get_multicast_mac_adr, h_source := src_mac mi\<rparr>)
             (map_pdu (\<lambda>d. d\<lparr>requested_start_address := requested_mac_add mi,
                             conflict_start_address := replicate 6 0,
                             requested_count := requested_mac_count mi, conflict_count := 0\<rparr>) mi)
      else if msg_type = MAAP_DEFEND
      then map_header (\<lambda>h. h\<lparr>h_dest := h_source (header (ethpkt_rx mi)), h_source := src_mac mi\<rparr>)
             (map_pdu (\<lambda>d. d\<lparr>requested_start_address := requested_mac_add mi,
                             conflict_start_address := conflict_mac_add mi,
                             requested_count := requested_mac_count mi,
                             conflict_count := conflict_mac_count mi\<rparr>) mi)
      else if msg_type = MAAP_ANNOUNCE
      then map_header (\<lambda>h. h\<lparr>h_dest := get_multicast_mac_adr, h_source := src_mac mi\<rparr>)
             (map_pdu (\<lambda>d. d\<lparr>requested_start_address := acquired_mac_add mi,
                             conflict_start_address := replicate 6 0,
                             requested_count := acquired_mac_count mi, conflict_count := 0\<rparr>) mi)
      else mi)"

text \<open>The loop over the six bytes with its flag, left at the first difference.\<close>

fun compare_loop :: "nat \<Rightarrow> bool \<Rightarrow> bytes \<Rightarrow> bytes \<Rightarrow> bool" where
  "compare_loop 0 flag rcv_add req_addr = flag"
| "compare_loop (Suc n) flag rcv_add req_addr =
     (let i = 5 - n in if rcv_add ! i = req_addr ! i then compare_loop n True rcv_add req_addr else False)"

definition compare_mac :: "bytes \<Rightarrow> bytes \<Rightarrow> bool" where
  "compare_mac rcv_add req_addr = compare_loop 6 False rcv_add req_addr"

definition zero_pkt :: ethpkt where
  "zero_pkt = ethpkt_of_bytes (replicate ETH_PKT_LEN 0)"

text \<open>\<^verbatim>\<open>calloc\<close> and \<^verbatim>\<open>Init\<close>.\<close>

definition MAAP_VER_DATA_LEN :: u16 where
  "MAAP_VER_DATA_LEN = push_bit 11 (0x01 AND 0x1F) OR (0x010 AND 0x7FF)"

definition cleared_info :: maap_info where
  "cleared_info =
     \<lparr>ethpkt = zero_pkt, ethpkt_rx = zero_pkt, state = INITIAL, src_mac = replicate 6 0,
      requested_mac_add = replicate 6 0, requested_mac_count = 0, acquired_mac_add = replicate 6 0,
      acquired_mac_count = 0, conflict_mac_add = replicate 6 0, conflict_mac_count = 0\<rparr>"

definition Init :: "bytes \<Rightarrow> maap_info \<Rightarrow> maap_info" where
  "Init src_mac_adr mi =
     map_header (\<lambda>h. h\<lparr>h_dest := get_multicast_mac_adr, h_source := src_mac_adr, eth_type := hton_s 0x22F0\<rparr>)
      (map_pdu (\<lambda>d. d\<lparr>subtype := 0x7E, cd := 1, message_type := 0, pdu_version := 0, sv := 0,
                      maap_version_data_length := hton_s MAAP_VER_DATA_LEN, stream_id := 0,
                      requested_start_address := replicate 6 0, conflict_start_address := replicate 6 0,
                      requested_count := 0, conflict_count := 0\<rparr>)
       (mi\<lparr>state := INITIAL, src_mac := src_mac_adr, requested_mac_count := hton_s 1\<rparr>))"

definition maap_boot :: "bytes \<Rightarrow> bytes \<Rightarrow> maap" where
  "maap_boot src shm = \<lparr>info = Init src cleared_info, sent = [], maap_shm_mem = shm, threads = [], locked = False\<rparr>"

definition send_packet :: "maap \<Rightarrow> maap" where
  "send_packet m = m\<lparr>sent := sent m @ [ethpkt (info m)]\<rparr>"

definition create_thread :: "maap \<Rightarrow> maap" where
  "create_thread m = m\<lparr>threads := threads m @ [(Sleeping, False)]\<rparr>"

text \<open>Cancellation is deferred: the thread acts on it at its next cancellation point.\<close>

definition destroy_thread :: "maap \<Rightarrow> maap" where
  "destroy_thread m =
     (if threads m = [] then m
      else m\<lparr>threads := butlast (threads m) @ [(fst (last (threads m)), True)]\<rparr>)"

section \<open>The state machine\<close>

text \<open>
  What one \<^verbatim>\<open>recv_packet\<close> of the probing loop delivers (\<open>None\<close>: the call fails, as it does when
  nothing has arrived) and what the loop makes of it.
\<close>

datatype heard = Silence | Traffic | Conflict

definition probe_hears :: "bytes option \<Rightarrow> maap_info \<Rightarrow> heard \<times> maap_info" where
  "probe_hears rx mi =
     (if rx = None \<or> rx = Some [] then (Silence, mi\<lparr>ethpkt_rx := zero_pkt\<rparr>)
      else let p = recv_packet (the rx); mi' = mi\<lparr>ethpkt_rx := p\<rparr>; t = message_type (pdu_data p)
           in if t = MAAP_DEFEND \<or> t = MAAP_ANNOUNCE \<or> t = MAAP_PROBE
              then if compare_mac (requested_start_address (pdu_data p)) (requested_start_address (pdu_data (ethpkt mi)))
                   then (Conflict, mi'\<lparr>state := INITIAL\<rparr>)
                   else (Traffic, mi')
              else (Traffic, mi'))"

text \<open>
  The loop \<^verbatim>\<open>while (maap_probe_count)\<close> over the receptions. It is left with the count at 0 or in
  a conflict; the third result is the receptions that remain. \<open>Traffic\<close> as the first result
  means that the receptions are used up and the loop still waits.
\<close>

fun probe_loop :: "bytes option list \<Rightarrow> nat \<Rightarrow> maap \<Rightarrow> heard \<times> maap \<times> bytes option list" where
  "probe_loop rxs 0 m = (Silence, m, rxs)"
| "probe_loop [] (Suc n) m = (Traffic, send_packet m, [])"
| "probe_loop (rx # rxs) (Suc n) m =
     (let m1 = send_packet m; (h, mi) = probe_hears rx (info m1); m2 = m1\<lparr>info := mi\<rparr>
      in case h of
           Conflict \<Rightarrow> (Conflict, m2, rxs)
         | Traffic \<Rightarrow> probe_loop rxs (Suc n) m2
         | Silence \<Rightarrow> probe_loop rxs n m2)"

definition MAAP_PROBE_RETRANSMITS :: nat where "MAAP_PROBE_RETRANSMITS = 3"

definition acquire :: "maap \<Rightarrow> maap" where
  "acquire m =
     (let m1 = map_info (\<lambda>mi. prepare_ethpkt MAAP_ANNOUNCE
                (mi\<lparr>acquired_mac_count := requested_mac_count mi, acquired_mac_add := requested_mac_add mi\<rparr>)) m;
          m2 = create_thread (send_packet m1)
      in map_info (state_update (\<lambda>_. DEFEND)) (m2\<lparr>maap_shm_mem := acquired_mac_add (info m2)\<rparr>))"

text \<open>What a reception makes the DEFEND state do before it takes the mutex; \<open>True\<close>: it replies.\<close>

definition defend_hears :: "bytes option \<Rightarrow> maap \<Rightarrow> bool \<times> maap" where
  "defend_hears rx m0 =
     (if rx = None \<or> rx = Some [] then (False, map_info (ethpkt_rx_update (\<lambda>_. zero_pkt)) m0)
      else let p = recv_packet (the rx); m = map_info (ethpkt_rx_update (\<lambda>_. p)) m0; d = pdu_data p
           in if compare_mac (requested_start_address d) (acquired_mac_add (info m))
              then if message_type d = MAAP_PROBE
                   then (True, map_info (\<lambda>mi. mi\<lparr>conflict_mac_add := requested_start_address d,
                                               conflict_mac_count := requested_count d\<rparr>) m)
                   else if message_type d = MAAP_ANNOUNCE \<or> message_type d = MAAP_DEFEND
                   then (False, map_info (state_update (\<lambda>_. INITIAL)) (destroy_thread m))
                   else (False, m)
              else (False, m))"

text \<open>The critical section of the reply.\<close>

definition defend_reply :: "maap \<Rightarrow> maap" where
  "defend_reply m = send_packet (map_info (prepare_ethpkt MAAP_DEFEND) m)"

text \<open>
  One call, as far as nothing else runs: return value, state and the receptions that remain.
  \<open>None\<close>: the call has not returned, it still listens or waits for the mutex.
\<close>

definition state_transit :: "nat \<Rightarrow> bytes option list \<Rightarrow> maap \<Rightarrow> (int \<times> maap \<times> bytes option list) option" where
  "state_transit r rxs m =
     (case state (info m) of
        INITIAL \<Rightarrow> Some (0, map_info (\<lambda>mi. (generate_address r mi)\<lparr>state := PROBE\<rparr>) m, rxs)
      | PROBE \<Rightarrow>
          (case probe_loop rxs MAAP_PROBE_RETRANSMITS (map_info (prepare_ethpkt MAAP_PROBE) m) of
             (Conflict, m', rxs') \<Rightarrow> Some (1, m', rxs')
           | (Silence, m', rxs') \<Rightarrow> Some (0, acquire m', rxs')
           | (Traffic, m', rxs') \<Rightarrow> None)
      | DEFEND \<Rightarrow>
          (case rxs of
             [] \<Rightarrow> None
           | rx # rxs' \<Rightarrow>
               let (reply, m') = defend_hears rx m
               in if \<not> reply then Some (0, m', rxs')
                  else if locked m' then None
                  else Some (0, defend_reply m', rxs')))"

text \<open>One round of the announcing thread.\<close>

definition send_announce :: "maap \<Rightarrow> maap" where
  "send_announce m = send_packet (map_info (prepare_ethpkt MAAP_ANNOUNCE) m)"

section \<open>The state machine beside the announcing threads\<close>

text \<open>
  The main thread between two calls of \<^verbatim>\<open>state_transit\<close>, before the test of the probing loop with
  the count that is left, listening in the loop (with one less than the count), and before the
  mutex is taken in the DEFEND state.
\<close>

datatype main_pc = Loop | Send nat | Listen nat | Locking

inductive maap_step :: "main_pc \<times> maap \<Rightarrow> main_pc \<times> maap \<Rightarrow> bool" where
  initial: "state (info m) = INITIAL \<Longrightarrow>
    maap_step (Loop, m) (Loop, map_info (\<lambda>mi. (generate_address r mi)\<lparr>state := PROBE\<rparr>) m)"
| probe: "state (info m) = PROBE \<Longrightarrow>
    maap_step (Loop, m) (Send MAAP_PROBE_RETRANSMITS, map_info (prepare_ethpkt MAAP_PROBE) m)"
| send: "maap_step (Send (Suc n), m) (Listen n, send_packet m)"
| listen: "probe_hears rx (info m) = (h, mi) \<Longrightarrow>
    maap_step (Listen n, m)
      (case h of Conflict \<Rightarrow> Loop | Traffic \<Rightarrow> Send (Suc n) | Silence \<Rightarrow> Send n, m\<lparr>info := mi\<rparr>)"
| acquire: "maap_step (Send 0, m) (Loop, acquire m)"
| defend: "state (info m) = DEFEND \<Longrightarrow> defend_hears rx m = (reply, m') \<Longrightarrow>
    maap_step (Loop, m) (if reply then Locking else Loop, m')"
| reply: "\<not> locked m \<Longrightarrow> maap_step (Locking, m) (Loop, defend_reply m)"
| wake: "i < length (threads m) \<Longrightarrow> threads m ! i = (Sleeping, False) \<Longrightarrow>
    maap_step (pc, m) (pc, m\<lparr>threads := (threads m)[i := (Wanting, False)]\<rparr>)"
| cancelled_asleep: "i < length (threads m) \<Longrightarrow> threads m ! i = (Sleeping, True) \<Longrightarrow>
    maap_step (pc, m) (pc, m\<lparr>threads := (threads m)[i := (Dead, True)]\<rparr>)"
| lock: "i < length (threads m) \<Longrightarrow> threads m ! i = (Wanting, c) \<Longrightarrow> \<not> locked m \<Longrightarrow>
    maap_step (pc, m)
      (pc, map_info (prepare_ethpkt MAAP_ANNOUNCE) (m\<lparr>threads := (threads m)[i := (Holding, c)], locked := True\<rparr>))"
| announce: "i < length (threads m) \<Longrightarrow> threads m ! i = (Holding, False) \<Longrightarrow>
    maap_step (pc, m) (pc, send_packet (m\<lparr>threads := (threads m)[i := (Sleeping, False)], locked := False\<rparr>))"
| cancelled_sending: "i < length (threads m) \<Longrightarrow> threads m ! i = (Holding, True) \<Longrightarrow>
    maap_step (pc, m) (pc, m\<lparr>threads := (threads m)[i := (Dead, True)]\<rparr>)"

section \<open>Packets survive the wire\<close>

definition pkt_ok :: "ethpkt \<Rightarrow> bool" where
  "pkt_ok p \<longleftrightarrow> length (h_dest (header p)) = 6 \<and> length (h_source (header p)) = 6 \<and>
     length (requested_start_address (pdu_data p)) = 6 \<and> length (conflict_start_address (pdu_data p)) = 6"

lemma length_eui64_write [simp]: "length (eui64_write v) = 8"
  by (simp add: eui64_write_def)

lemma be16_hi_lo: "be16 (hi8 v) (lo8 v) = v"
  by (rule bit_word_eqI) (auto simp: be16_def hi8_def lo8_def bit_simps)

lemma six_bytes:
  assumes "length b = 6"
  obtains b0 b1 b2 b3 b4 b5 where "b = [b0, b1, b2, b3, b4, b5]"
  using assms by (auto simp: length_Suc_conv eval_nat_numeral)

lemma word_fields:
  fixes a :: "7 word" and b :: "1 word" and t :: "4 word" and v :: "3 word" and w :: "1 word"
  shows "ucast (ucast a OR push_bit 7 (ucast b) :: byte) = a"
    and "ucast (drop_bit 7 (ucast a OR push_bit 7 (ucast b) :: byte)) = b"
    and "ucast (ucast t OR push_bit 4 (ucast v) OR push_bit 7 (ucast w) :: byte) = t"
    and "ucast (drop_bit 4 (ucast t OR push_bit 4 (ucast v) OR push_bit 7 (ucast w) :: byte)) = v"
    and "ucast (drop_bit 7 (ucast t OR push_bit 4 (ucast v) OR push_bit 7 (ucast w) :: byte)) = w"
  by (rule bit_word_eqI; auto simp: bit_simps dest: bit_imp_le_length)+

lemma recv_packet_bytes:
  assumes "pkt_ok p"
  shows "recv_packet (bytes_of_ethpkt p @ padding) = p"
proof -
  obtain d0 d1 d2 d3 d4 d5 where d: "h_dest (header p) = [d0, d1, d2, d3, d4, d5]"
    using assms six_bytes by (metis pkt_ok_def)
  obtain s0 s1 s2 s3 s4 s5 where s: "h_source (header p) = [s0, s1, s2, s3, s4, s5]"
    using assms six_bytes by (metis pkt_ok_def)
  obtain r0 r1 r2 r3 r4 r5 where r: "requested_start_address (pdu_data p) = [r0, r1, r2, r3, r4, r5]"
    using assms six_bytes by (metis pkt_ok_def)
  obtain c0 c1 c2 c3 c4 c5 where c: "conflict_start_address (pdu_data p) = [c0, c1, c2, c3, c4, c5]"
    using assms six_bytes by (metis pkt_ok_def)
  define b where "b = le64 (stream_id (pdu_data p))"
  have "length b = 8" by (simp add: b_def le64_def)
  then obtain b0 b1 b2 b3 b4 b5 b6 b7 where b': "b = [b0, b1, b2, b3, b4, b5, b6, b7]"
    by (auto simp: length_Suc_conv eval_nat_numeral)
  have str: "eui64_read [b7, b6, b5, b4, b3, b2, b1, b0] = stream_id (pdu_data p)"
  proof -
    have "rev b = [b7, b6, b5, b4, b3, b2, b1, b0]" by (simp add: b')
    then show ?thesis by (metis b_def le64_def rev_rev_ident eui64_read_eui64_write)
  qed
  have "bytes_of_ethpkt p = [d0, d1, d2, d3, d4, d5] @ [s0, s1, s2, s3, s4, s5] @ le16 (eth_type (header p)) @
      [ucast (subtype (pdu_data p)) OR push_bit 7 (ucast (cd (pdu_data p))),
       ucast (message_type (pdu_data p)) OR push_bit 4 (ucast (pdu_version (pdu_data p))) OR push_bit 7 (ucast (sv (pdu_data p)))] @
      le16 (maap_version_data_length (pdu_data p)) @ b @
      [r0, r1, r2, r3, r4, r5] @ le16 (requested_count (pdu_data p)) @
      [c0, c1, c2, c3, c4, c5] @ le16 (conflict_count (pdu_data p))"
    by (simp only: bytes_of_ethpkt_def Let_def d s r c b_def)
  then show ?thesis
    by (intro ethpkt.equality ethhedr.equality maap_pdu.equality)
      (simp_all add: recv_packet_def ethpkt_of_bytes_def ETH_PKT_LEN_def le16_def b' str be16_hi_lo word_fields d s r c
        del: drop_bit_or)
qed


definition example_src :: bytes where "example_src = [0x02, 0, 0, 0, 0, 0x01]"


section \<open>Probing\<close>

lemma compare_mac_iff:
  assumes "length a = 6" "length b = 6"
  shows "compare_mac a b \<longleftrightarrow> a = b"
  by (rule six_bytes [OF assms(1)], rule six_bytes [OF assms(2)])
    (simp add: compare_mac_def eval_nat_numeral)

text \<open>What the probing loop hears in a reception, given the address it probes for.\<close>

definition heard :: "bytes \<Rightarrow> bytes option \<Rightarrow> heard" where
  "heard a rx =
     (if rx = None \<or> rx = Some [] then Silence
      else let d = pdu_data (recv_packet (the rx))
           in if message_type d \<in> {MAAP_PROBE, MAAP_DEFEND, MAAP_ANNOUNCE} \<and> compare_mac (requested_start_address d) a
              then Conflict else Traffic)"

lemma probe_hears_heard:
  "\<exists>p. probe_hears rx mi =
     (let h = heard (requested_start_address (pdu_data (ethpkt mi))) rx
      in (h, if h = Conflict then mi\<lparr>ethpkt_rx := p, state := INITIAL\<rparr> else mi\<lparr>ethpkt_rx := p\<rparr>))"
  by (auto simp: probe_hears_def heard_def Let_def)

lemma info_send_packet [simp]: "info (send_packet m) = info m"
  by (simp add: send_packet_def)

text \<open>
  The receptions \<open>us\<close> end probing for \<open>a\<close> with the result \<open>h\<close>: in the first conflict before \<open>n\<close>
  quiet intervals, or in the last of \<open>n\<close> quiet intervals without a conflict.
\<close>

definition probed :: "bytes \<Rightarrow> nat \<Rightarrow> heard \<Rightarrow> bytes option list \<Rightarrow> bool" where
  "probed a n h us \<longleftrightarrow>
     (if h = Conflict
      then us \<noteq> [] \<and> heard a (last us) = Conflict \<and> Conflict \<notin> heard a ` set (butlast us) \<and>
        count_list (map (heard a) us) Silence < n
      else (us \<noteq> [] \<longrightarrow> heard a (last us) = Silence) \<and> Conflict \<notin> heard a ` set us \<and>
        count_list (map (heard a) us) Silence = n)"

lemma probed_Traffic: "probed a n h us \<Longrightarrow> heard a rx = Traffic \<Longrightarrow> 0 < n \<Longrightarrow> probed a n h (rx # us)"
  by (cases us) (auto simp: probed_def split: if_splits)

lemma probed_Silence: "probed a n h us \<Longrightarrow> heard a rx = Silence \<Longrightarrow> probed a (Suc n) h (rx # us)"
  by (cases us) (auto simp: probed_def split: if_splits)

lemma probe_loop_result:
  assumes "probe_loop rxs n m = (h, m', rxs')" "h \<noteq> Traffic"
    and "ethpkt (info m) = P" "state (info m) = st" "requested_start_address (pdu_data P) = a"
  shows "\<exists>us p. rxs = us @ rxs' \<and> probed a n h us \<and>
     m' = m\<lparr>info := (info m)\<lparr>ethpkt_rx := p, state := if h = Conflict then INITIAL else st\<rparr>,
            sent := sent m @ replicate (length us) P\<rparr>"
  using assms
proof (induction rxs arbitrary: n m)
  case Nil
  then show ?case by (cases n) (auto simp: probed_def intro!: exI [of _ "ethpkt_rx (info m)"])
next
  case (Cons rx rxs)
  obtain p where p: "probe_hears rx (info m) = (let h = heard a rx
      in (h, if h = Conflict then (info m)\<lparr>ethpkt_rx := p, state := INITIAL\<rparr> else (info m)\<lparr>ethpkt_rx := p\<rparr>))"
    using probe_hears_heard [of rx "info m"] Cons.prems(3,5) by auto
  let ?m = "(send_packet m)\<lparr>info := (info m)\<lparr>ethpkt_rx := p\<rparr>\<rparr>"
  have step: ?case if "probe_loop rxs k ?m = (h, m', rxs')" "\<And>us. probed a k h us \<Longrightarrow> probed a n h (rx # us)" for k
  proof -
    have "ethpkt (info ?m) = P" "state (info ?m) = st" using Cons.prems by simp_all
    from Cons.IH [OF that(1) Cons.prems(2) this Cons.prems(5)] obtain us q where
      "rxs = us @ rxs'" "probed a k h us"
      "m' = ?m\<lparr>info := (info ?m)\<lparr>ethpkt_rx := q, state := if h = Conflict then INITIAL else st\<rparr>,
          sent := sent ?m @ replicate (length us) P\<rparr>" by blast
    then show ?thesis
      using that(2) Cons.prems(3) by (intro exI [of _ "rx # us"] exI [of _ q]) (simp add: send_packet_def)
  qed
  show ?case
  proof (cases n)
    case 0
    then show ?thesis
      using Cons.prems by (intro exI [of _ "[]"] exI [of _ "ethpkt_rx (info m)"]) (auto simp: probed_def)
  next
    case (Suc k)
    show ?thesis
    proof (cases "heard a rx")
      case Conflict
      then show ?thesis
        using Cons.prems p Suc
        by (intro exI [of _ "[rx]"] exI [of _ p]) (auto simp: Let_def send_packet_def probed_def)
    next
      case Traffic
      then show ?thesis
        using Cons.prems(1) p Suc probed_Traffic by (intro step [of n]) (auto simp: Let_def)
    next
      case Silence
      then show ?thesis
        using Cons.prems(1) p Suc probed_Silence by (intro step [of k]) (auto simp: Let_def)
    qed
  qed
qed

lemma probe_loop_Traffic:
  assumes "fst (probe_loop rxs n m) = Traffic" "requested_start_address (pdu_data (ethpkt (info m))) = a"
  shows "Conflict \<notin> heard a ` set rxs \<and> count_list (map (heard a) rxs) Silence < n"
  using assms
proof (induction rxs arbitrary: n m)
  case Nil
  then show ?case by (cases n) auto
next
  case (Cons rx rxs)
  obtain p where p: "probe_hears rx (info m) = (let h = heard a rx
      in (h, if h = Conflict then (info m)\<lparr>ethpkt_rx := p, state := INITIAL\<rparr> else (info m)\<lparr>ethpkt_rx := p\<rparr>))"
    using probe_hears_heard [of rx "info m"] Cons.prems(2) by auto
  let ?m = "(send_packet m)\<lparr>info := (info m)\<lparr>ethpkt_rx := p\<rparr>\<rparr>"
  have IH: "Conflict \<notin> heard a ` set rxs \<and> count_list (map (heard a) rxs) Silence < k" if "fst (probe_loop rxs k ?m) = Traffic" for k
    using Cons.IH [OF that] Cons.prems(2) by simp
  show ?case
  proof (cases n)
    case 0
    then show ?thesis using Cons.prems(1) by simp
  next
    case (Suc k)
    then show ?thesis
      using Cons.prems(1) p IH [of n] IH [of k] by (cases "heard a rx") (auto simp: Let_def)
  qed
qed

lemma prepare_ethpkt_frame [simp]:
  "state (prepare_ethpkt t mi) = state mi" "src_mac (prepare_ethpkt t mi) = src_mac mi"
  "requested_mac_add (prepare_ethpkt t mi) = requested_mac_add mi" "acquired_mac_add (prepare_ethpkt t mi) = acquired_mac_add mi"
  "requested_mac_count (prepare_ethpkt t mi) = requested_mac_count mi" "acquired_mac_count (prepare_ethpkt t mi) = acquired_mac_count mi"
  "conflict_mac_add (prepare_ethpkt t mi) = conflict_mac_add mi" "ethpkt_rx (prepare_ethpkt t mi) = ethpkt_rx mi"
  by (simp_all add: prepare_ethpkt_def Let_def map_header_def map_pdu_def)

lemma prepare_ethpkt_requested:
  "requested_start_address (pdu_data (ethpkt (prepare_ethpkt MAAP_PROBE mi))) = requested_mac_add mi"
  "requested_start_address (pdu_data (ethpkt (prepare_ethpkt MAAP_DEFEND mi))) = requested_mac_add mi"
  "requested_start_address (pdu_data (ethpkt (prepare_ethpkt MAAP_ANNOUNCE mi))) = acquired_mac_add mi"
  by (simp_all add: prepare_ethpkt_def Let_def map_header_def map_pdu_def maap_msg_defs)

lemma acquire_fields [simp]:
  "state (info (acquire m)) = DEFEND" "acquired_mac_add (info (acquire m)) = requested_mac_add (info m)"
  "requested_mac_add (info (acquire m)) = requested_mac_add (info m)" "src_mac (info (acquire m)) = src_mac (info m)"
  "maap_shm_mem (acquire m) = requested_mac_add (info m)"
  "threads (acquire m) = threads m @ [(Sleeping, False)]" "locked (acquire m) = locked m"
  by (simp_all add: acquire_def Let_def map_info_def create_thread_def send_packet_def)

lemma sent_acquire:
  "sent (acquire m) = sent m @ [ethpkt (prepare_ethpkt MAAP_ANNOUNCE
     ((info m)\<lparr>acquired_mac_count := requested_mac_count (info m), acquired_mac_add := requested_mac_add (info m)\<rparr>))]"
  by (simp add: acquire_def Let_def map_info_def create_thread_def send_packet_def)

text \<open>
  C31: What probing comes to. The call returns 1 and goes back to INITIAL at the first packet
  that names the probed address, if fewer than three intervals before it were quiet. It returns
  0 with the address acquired, announced and written to the shared memory after the third quiet
  interval, if no conflict came before. Otherwise it keeps probing: intervals in which other
  packets arrive do not count. One probe is sent for every interval.
\<close>

theorem maap_probe_outcome:
  assumes "state (info m) = PROBE"
  defines "a \<equiv> requested_mac_add (info m)"
  shows "case state_transit r rxs m of
      None \<Rightarrow> Conflict \<notin> heard a ` set rxs \<and> count_list (map (heard a) rxs) Silence < 3
    | Some (rc, m', rxs') \<Rightarrow> \<exists>us. rxs = us @ rxs' \<and>
        take (length us) (drop (length (sent m)) (sent m')) = replicate (length us) (ethpkt (prepare_ethpkt MAAP_PROBE (info m))) \<and>
        (if rc = 1 then probed a 3 Conflict us \<and> state (info m') = INITIAL
         else rc = 0 \<and> probed a 3 Silence us \<and> state (info m') = DEFEND \<and> acquired_mac_add (info m') = a \<and> maap_shm_mem m' = a)"
proof -
  let ?m = "map_info (prepare_ethpkt MAAP_PROBE) m" and ?P = "ethpkt (prepare_ethpkt MAAP_PROBE (info m))"
  have P: "ethpkt (info ?m) = ?P" "state (info ?m) = PROBE" "requested_start_address (pdu_data ?P) = a"
    using assms(1) by (simp_all add: map_info_def a_def prepare_ethpkt_requested)
  have sent: "sent ?m = sent m" "requested_mac_add (info ?m) = a" by (simp_all add: map_info_def a_def)
  obtain h m' rxs' where l: "probe_loop rxs 3 ?m = (h, m', rxs')" by (cases "probe_loop rxs 3 ?m") auto
  show ?thesis
  proof (cases "h = Traffic")
    case True
    then show ?thesis
      using l probe_loop_Traffic [of rxs 3 ?m a] P assms(1) by (simp add: state_transit_def MAAP_PROBE_RETRANSMITS_def)
  next
    case False
    from probe_loop_result [OF l this P] obtain us p where us: "rxs = us @ rxs'" "probed a 3 h us"
      and m': "m' = ?m\<lparr>info := (info ?m)\<lparr>ethpkt_rx := p, state := if h = Conflict then INITIAL else PROBE\<rparr>,
            sent := sent ?m @ replicate (length us) ?P\<rparr>" by blast
    show ?thesis
    proof (cases "h = Conflict")
      case True
      then show ?thesis
        using us m' l assms(1) sent by (auto simp: state_transit_def MAAP_PROBE_RETRANSMITS_def)
    next
      case nc: False
      then have h: "h = Silence" using False by (cases h) auto
      then show ?thesis
        using us m' l assms(1) sent by (auto simp: state_transit_def MAAP_PROBE_RETRANSMITS_def sent_acquire)
    qed
  qed
qed

definition example_probing :: maap where
  "example_probing = map_info (\<lambda>mi. (generate_address 5 mi)\<lparr>state := PROBE\<rparr>) (maap_boot example_src (replicate 6 0))"

theorem maap_probe_outcome_witness:
  "case state_transit 0 [None, None, None] example_probing of
     None \<Rightarrow> False
   | Some (rc, m', rxs') \<Rightarrow>
       if rc = 1 then state (info m') = INITIAL else acquired_mac_add (info m') = [0x91, 0xE0, 0xF0, 0, 0, 5]"
proof -
  have st: "state (info example_probing) = PROBE" by (simp add: example_probing_def map_info_def)
  have "requested_mac_add (info example_probing) = [0x91, 0xE0, 0xF0, 0, 0, 5]"
    by (simp add: example_probing_def map_info_def generate_address_def rand_range_def)
  then show ?thesis
    using maap_probe_outcome [OF st, where r = 0 and rxs = "[None, None, None]"] by (auto simp: heard_def split: option.splits)
qed

text \<open>
  C35: Steady traffic of other stations starves the probing: however many packets for other
  addresses arrive, one in every interval, the call does not return.
\<close>

theorem maap_traffic_starves_probing:
  assumes "state (info m) = PROBE" and "\<forall>rx \<in> set rxs. heard (requested_mac_add (info m)) rx = Traffic"
  shows "state_transit r rxs m = None"
proof (rule ccontr)
  let ?m = "map_info (prepare_ethpkt MAAP_PROBE) m"
  assume ne: "state_transit r rxs m \<noteq> None"
  obtain h m' rxs' where l: "probe_loop rxs 3 ?m = (h, m', rxs')" by (cases "probe_loop rxs 3 ?m") auto
  then have h: "h \<noteq> Traffic" using ne assms(1) by (auto simp: state_transit_def MAAP_PROBE_RETRANSMITS_def)
  have a: "requested_start_address (pdu_data (ethpkt (info ?m))) = requested_mac_add (info m)"
    by (simp add: map_info_def prepare_ethpkt_requested)
  from probe_loop_result [OF l h refl refl a] obtain us where
    us: "rxs = us @ rxs'" "probed (requested_mac_add (info m)) 3 h us" by blast
  then have "map (heard (requested_mac_add (info m))) us = replicate (length us) Traffic"
    using assms(2) by (intro nth_equalityI) auto
  moreover have "last us \<in> set rxs" if "us \<noteq> []" using us(1) that by simp
  ultimately show False using us(2) assms(2) h by (cases h) (auto simp: probed_def)
qed

text \<open>An announcement of another station, for 91:E0:F0:00:00:06.\<close>

definition example_foreign :: bytes where
  "example_foreign =
     [0x91, 0xE0, 0xF0, 0, 0xFF, 0, 0x02, 0, 0, 0, 0, 0x02, 0x22, 0xF0, 0xFE, 0x03, 0x08, 0x10,
      0, 0, 0, 0, 0, 0, 0, 0, 0x91, 0xE0, 0xF0, 0, 0, 6, 0, 1, 0, 0, 0, 0, 0, 0, 0, 0]"

theorem maap_traffic_starves_probing_witness:
  "\<forall>k. state_transit 0 (replicate k (Some example_foreign)) example_probing = None"
proof
  fix k
  have "state (info example_probing) = PROBE" "requested_mac_add (info example_probing) = [0x91, 0xE0, 0xF0, 0, 0, 5]"
    by (simp_all add: example_probing_def map_info_def generate_address_def rand_range_def)
  moreover have "heard [0x91, 0xE0, 0xF0, 0, 0, 5] (Some example_foreign) = Traffic" by code_simp
  ultimately show "state_transit 0 (replicate k (Some example_foreign)) example_probing = None"
    by (intro maap_traffic_starves_probing) (simp_all add: set_replicate_conv_if)
qed

section \<open>Defending\<close>

text \<open>
  C32: In the DEFEND state a probe for the acquired address is answered with one DEFEND packet,
  sent to the station that probed, which names the address it asked for as the conflict; an
  announcement or DEFEND packet of another station for the address makes the station give it up
  and cancel its announcing thread; every other packet, and every failing reception, changes nothing but
  the receive buffer.
\<close>

theorem maap_defend_outcome:
  fixes padding :: bytes
  assumes "state (info m) = DEFEND" "\<not> locked m" "length (acquired_mac_add (info m)) = 6" "pkt_ok p"
  defines "d \<equiv> pdu_data p" and "rx \<equiv> Some (bytes_of_ethpkt p @ padding)"
    and "m0 \<equiv> map_info (ethpkt_rx_update (\<lambda>_. p)) m"
  shows "\<exists>m'. state_transit r (rx # rxs) m = Some (0, m', rxs) \<and>
    (if requested_start_address d = acquired_mac_add (info m)
     then if message_type d = MAAP_PROBE
          then \<exists>reply. sent m' = sent m @ [reply] \<and> message_type (pdu_data reply) = MAAP_DEFEND \<and>
             h_dest (header reply) = h_source (header p) \<and> h_source (header reply) = src_mac (info m) \<and>
             requested_start_address (pdu_data reply) = requested_mac_add (info m) \<and>
             conflict_start_address (pdu_data reply) = requested_start_address d \<and>
             conflict_count (pdu_data reply) = requested_count d \<and> state (info m') = DEFEND
          else if message_type d = MAAP_ANNOUNCE \<or> message_type d = MAAP_DEFEND
          then m' = map_info (state_update (\<lambda>_. INITIAL)) (destroy_thread m0)
          else m' = m0
     else m' = m0) \<and>
    state_transit r (None # rxs) m = Some (0, map_info (ethpkt_rx_update (\<lambda>_. zero_pkt)) m, rxs)"
proof -
  have ne: "bytes_of_ethpkt p @ padding \<noteq> []"
    using assms(4) by (auto simp: bytes_of_ethpkt_def Let_def pkt_ok_def)
  have rp: "recv_packet (bytes_of_ethpkt p @ padding) = p" using assms(4) by (rule recv_packet_bytes)
  have cm: "compare_mac (requested_start_address (pdu_data p)) (acquired_mac_add (info m)) \<longleftrightarrow>
      requested_start_address (pdu_data p) = acquired_mac_add (info m)"
    using assms(3,4) by (intro compare_mac_iff) (simp_all add: pkt_ok_def)
  show ?thesis
    using assms(1,2) ne
    by (auto simp: state_transit_def defend_hears_def rx_def rp Let_def cm d_def m0_def map_info_def
        defend_reply_def send_packet_def prepare_ethpkt_def map_header_def map_pdu_def maap_msg_defs)
qed

definition example_defending :: maap where
  "example_defending = acquire example_probing"

definition example_probe :: ethpkt where
  "example_probe = ethpkt (prepare_ethpkt MAAP_PROBE (info example_probing))"

theorem maap_defend_outcome_witness:
  "\<exists>m' reply. state_transit 0 [Some (bytes_of_ethpkt example_probe)] example_defending = Some (0, m', []) \<and>
     sent m' = sent example_defending @ [reply] \<and> message_type (pdu_data reply) = MAAP_DEFEND"
proof -
  have "pkt_ok example_probe" "message_type (pdu_data example_probe) = MAAP_PROBE"
      "requested_start_address (pdu_data example_probe) = requested_mac_add (info example_probing)"
    by (simp_all add: example_probe_def prepare_ethpkt_def Let_def map_header_def map_pdu_def pkt_ok_def
        example_probing_def maap_boot_def Init_def map_info_def generate_address_def example_src_def get_multicast_mac_adr_def)
  moreover have "length (requested_mac_add (info example_probing)) = 6"
    by (simp add: example_probing_def map_info_def generate_address_def Let_def)
  moreover have "\<not> locked example_probing" by (simp add: example_probing_def map_info_def maap_boot_def)
  ultimately show ?thesis
    using maap_defend_outcome [of example_defending example_probe 0 "[]" "[]"]
    by (auto simp: example_defending_def)
qed

section \<open>Interleavings\<close>

lemma probe_loop_steps:
  assumes "probe_loop rxs n m = (h, m', rxs')" "h \<noteq> Traffic"
  shows "maap_step\<^sup>*\<^sup>* (Send n, m) (if h = Conflict then Loop else Send 0, m')"
  using assms
proof (induction rxs arbitrary: n m)
  case Nil
  then show ?case by (cases n) auto
next
  case (Cons rx rxs)
  show ?case
  proof (cases n)
    case 0
    then show ?thesis using Cons.prems by auto
  next
    case (Suc k)
    obtain g mi where g: "probe_hears rx (info (send_packet m)) = (g, mi)" by (cases "probe_hears rx (info (send_packet m))")
    have "maap_step (Send n, m) (Listen k, send_packet m)" using Suc maap_step.send by simp
    moreover have "maap_step (Listen k, send_packet m)
        (case g of Conflict \<Rightarrow> Loop | Traffic \<Rightarrow> Send (Suc k) | Silence \<Rightarrow> Send k, (send_packet m)\<lparr>info := mi\<rparr>)"
      using g by (rule maap_step.listen)
    ultimately have two: "maap_step\<^sup>*\<^sup>* (Send n, m)
        (case g of Conflict \<Rightarrow> Loop | Traffic \<Rightarrow> Send (Suc k) | Silence \<Rightarrow> Send k, (send_packet m)\<lparr>info := mi\<rparr>)"
      by (rule converse_rtranclp_into_rtranclp [OF _ r_into_rtranclp])
    show ?thesis
    proof (cases g)
      case Conflict
      then show ?thesis using two Cons.prems g Suc by (auto simp: Let_def)
    next
      case Traffic
      then have "maap_step\<^sup>*\<^sup>* (Send (Suc k), (send_packet m)\<lparr>info := mi\<rparr>) (if h = Conflict then Loop else Send 0, m')"
        using Cons.prems g Suc by (intro Cons.IH) (auto simp: Let_def)
      then show ?thesis by (rule rtranclp_trans [OF two [unfolded Traffic heard.case]])
    next
      case Silence
      then have "maap_step\<^sup>*\<^sup>* (Send k, (send_packet m)\<lparr>info := mi\<rparr>) (if h = Conflict then Loop else Send 0, m')"
        using Cons.prems g Suc by (intro Cons.IH) (auto simp: Let_def)
      then show ?thesis by (rule rtranclp_trans [OF two [unfolded Silence heard.case]])
    qed
  qed
qed

lemma state_transit_steps:
  assumes "state_transit r rxs m = Some (rc, m', rxs')"
  shows "maap_step\<^sup>*\<^sup>* (Loop, m) (Loop, m')"
proof (cases "state (info m)")
  case INITIAL
  then show ?thesis using assms maap_step.initial [of m r] by (auto simp: state_transit_def)
next
  case PROBE
  let ?m = "map_info (prepare_ethpkt MAAP_PROBE) m"
  obtain h m1 rxs1 where l: "probe_loop rxs MAAP_PROBE_RETRANSMITS ?m = (h, m1, rxs1)"
    by (cases "probe_loop rxs MAAP_PROBE_RETRANSMITS ?m") auto
  have h: "h \<noteq> Traffic" using assms PROBE l by (auto simp: state_transit_def)
  have "maap_step\<^sup>*\<^sup>* (Loop, m) (if h = Conflict then Loop else Send 0, m1)"
    using maap_step.probe [OF PROBE] probe_loop_steps [OF l h] by (rule converse_rtranclp_into_rtranclp)
  then show ?thesis
    using assms PROBE l h maap_step.acquire [of m1] by (cases h) (auto simp: state_transit_def intro: rtranclp.rtrancl_into_rtrancl)
next
  case DEFEND
  then obtain rx where rx: "rxs = rx # rxs'" using assms by (cases rxs) (auto simp: state_transit_def Let_def split: prod.splits if_splits)
  obtain reply m1 where d: "defend_hears rx m = (reply, m1)" by (cases "defend_hears rx m")
  have "maap_step (Loop, m) (if reply then Locking else Loop, m1)" using DEFEND d by (rule maap_step.defend)
  then show ?thesis
    using assms DEFEND d rx maap_step.reply [of m1]
    by (auto simp: state_transit_def intro: rtranclp.rtrancl_into_rtrancl split: if_splits)
qed



text \<open>The range the protocol allocates from.\<close>

definition maap_address :: "bytes \<Rightarrow> bool" where
  "maap_address a \<longleftrightarrow> length a = 6 \<and> take 4 a = [0x91, 0xE0, 0xF0, 0x00] \<and> a ! 4 \<le> 0xFD"

lemma generate_address_range: "maap_address (requested_mac_add (generate_address r mi))"
proof -
  define v :: u16 where "v = word_of_int (int r mod 0xFE00)"
  have "uint v = int r mod 0xFE00" by (simp add: v_def uint_word_of_int)
  then have "uint v \<le> 0xFDFF" by simp
  then have v: "unat v \<le> 0xFDFF" by (metis nat_mono nat_numeral unat_eq_nat_uint)
  have m: "(0xff00 :: u16) = push_bit 8 (mask 8)" by (simp add: mask_eq_exp_minus_1 push_bit_eq_mult)
  have "ucast (drop_bit 8 (v AND 0xff00)) = hi8 v"
    unfolding m hi8_def by (rule bit_word_eqI) (auto simp: bit_simps simp del: mask_numeral push_bit_numeral)
  moreover have "unat (hi8 v) \<le> 0xFD"
    using v by (simp add: hi8_def unsigned_ucast_eq unat_drop_bit_eq drop_bit_nat_def take_bit_nat_def)
  then have "hi8 v \<le> 0xFD" by (simp add: word_le_nat_alt)
  ultimately show ?thesis by (simp add: maap_address_def generate_address_def rand_range_def Let_def v_def)
qed

text \<open>The announcing threads: only the last may be uncancelled, and is so in the DEFEND state.\<close>

definition threads_ok :: "maap \<Rightarrow> bool" where
  "threads_ok m \<longleftrightarrow> (\<forall>t \<in> set (butlast (threads m)). snd t) \<and>
     (threads m \<noteq> [] \<longrightarrow> snd (last (threads m)) = (state (info m) \<noteq> DEFEND)) \<and>
     (state (info m) = DEFEND \<longrightarrow> threads m \<noteq> []) \<and>
     length (filter (\<lambda>t. fst t = Holding) (threads m)) \<le> of_bool (locked m)"

abbreviation tx_address :: "maap \<Rightarrow> bytes" where
  "tx_address m \<equiv> requested_start_address (pdu_data (ethpkt (info m)))"

definition addresses_ok :: "bytes \<Rightarrow> main_pc \<Rightarrow> maap \<Rightarrow> bool" where
  "addresses_ok src pc m \<longleftrightarrow>
     src_mac (info m) = src \<and> h_source (header (ethpkt (info m))) = src \<and>
     (state (info m) \<noteq> INITIAL \<longrightarrow> maap_address (requested_mac_add (info m))) \<and>
     (state (info m) = DEFEND \<longrightarrow> acquired_mac_add (info m) = requested_mac_add (info m) \<and>
        maap_shm_mem m = acquired_mac_add (info m)) \<and>
     (threads m \<noteq> [] \<longrightarrow> maap_address (acquired_mac_add (info m)) \<and> maap_address (tx_address m)) \<and>
     (case pc of Loop \<Rightarrow> True | Locking \<Rightarrow> state (info m) = DEFEND
      | _ \<Rightarrow> state (info m) = PROBE \<and> maap_address (tx_address m)) \<and>
     (\<forall>p \<in> set (sent m). h_source (header p) = src \<and> maap_address (requested_start_address (pdu_data p)))"

lemma prepare_ethpkt_source: "h_source (header (ethpkt mi)) = src_mac mi \<Longrightarrow> h_source (header (ethpkt (prepare_ethpkt t mi))) = src_mac mi"
  by (simp add: prepare_ethpkt_def Let_def map_header_def map_pdu_def)

lemma length_filter_update:
  "i < length xs \<Longrightarrow> length (filter P (xs[i := y])) + of_bool (P (xs ! i)) = length (filter P xs) + of_bool (P y)"
proof (induction xs arbitrary: i)
  case (Cons x xs)
  then show ?case using Cons.IH [of "i - 1"] by (cases i) auto
qed simp

lemma butlast_update_snd:
  "i < length xs \<Longrightarrow> snd (xs ! i) = c \<Longrightarrow> \<forall>t \<in> set (butlast xs). snd t \<Longrightarrow> \<forall>t \<in> set (butlast (xs[i := (q, c)])). snd t"
  by (auto simp: all_set_conv_all_nth nth_butlast nth_list_update)

lemma last_update_snd:
  "i < length xs \<Longrightarrow> snd (xs ! i) = c \<Longrightarrow> snd (last (xs[i := (q, c)])) = snd (last xs)"
  by (cases "xs = []") (auto simp: last_conv_nth nth_list_update)

lemma threads_ok_update:
  assumes "threads_ok m" "i < length (threads m)" "snd (threads m ! i) = c" "state (info m') = state (info m)"
    and "threads m' = (threads m)[i := (q, c)]"
    and "of_bool (q = Holding) + of_bool (locked m) \<le> of_bool (fst (threads m ! i) = Holding) + (of_bool (locked m') :: nat)"
  shows "threads_ok m'"
  using assms length_filter_update [OF assms(2), of "\<lambda>t. fst t = Holding" "(q, c)"]
    butlast_update_snd [OF assms(2,3), of q] last_update_snd [OF assms(2,3), of q]
  by (auto simp: threads_ok_def)

lemma destroy_thread_threads_ok:
  assumes "threads_ok m" "state (info m) = DEFEND"
  shows "threads_ok (map_info (state_update (\<lambda>_. INITIAL)) (destroy_thread m))"
proof -
  obtain ts pc c where ts: "threads m = ts @ [(pc, c)]"
    using assms(1,2) by (metis threads_ok_def rev_exhaust surj_pair)
  then show ?thesis using assms by (auto simp: threads_ok_def destroy_thread_def map_info_def)
qed

lemma defend_hears_cases:
  "\<exists>q. defend_hears rx m = (True, map_info (\<lambda>mi. mi\<lparr>ethpkt_rx := q, conflict_mac_add := requested_start_address (pdu_data q),
         conflict_mac_count := requested_count (pdu_data q)\<rparr>) m) \<or>
     defend_hears rx m = (False, map_info (ethpkt_rx_update (\<lambda>_. q)) m) \<or>
     defend_hears rx m = (False, map_info (state_update (\<lambda>_. INITIAL)) (destroy_thread (map_info (ethpkt_rx_update (\<lambda>_. q)) m)))"
  by (auto simp: defend_hears_def Let_def map_info_def)

lemma probe_hears_cases:
  assumes "probe_hears rx mi = (h, mi')"
  shows "\<exists>p. mi' = (if h = Conflict then mi\<lparr>ethpkt_rx := p, state := INITIAL\<rparr> else mi\<lparr>ethpkt_rx := p\<rparr>)"
proof -
  obtain p where "probe_hears rx mi = (let h = heard (requested_start_address (pdu_data (ethpkt mi))) rx
      in (h, if h = Conflict then mi\<lparr>ethpkt_rx := p, state := INITIAL\<rparr> else mi\<lparr>ethpkt_rx := p\<rparr>))"
    using probe_hears_heard by blast
  then show ?thesis using assms by (intro exI [of _ p]) (auto simp: Let_def)
qed

lemma maap_step_threads_ok:
  assumes "maap_step (pc, m) (pc', m')" "threads_ok m" "pc = Send 0 \<Longrightarrow> state (info m) = PROBE"
    "\<And>n. pc = Listen n \<Longrightarrow> state (info m) = PROBE"
  shows "threads_ok m'"
  using assms(1)
proof (cases rule: maap_step.cases)
  case (listen rx h mi n)
  then obtain p where "mi = (if h = Conflict then (info m)\<lparr>ethpkt_rx := p, state := INITIAL\<rparr> else (info m)\<lparr>ethpkt_rx := p\<rparr>)"
    using probe_hears_cases by blast
  then show ?thesis using listen assms(2,4) by (auto simp: threads_ok_def)
next
  case (defend rx reply)
  then obtain q where q: "m' = map_info (\<lambda>mi. mi\<lparr>ethpkt_rx := q, conflict_mac_add := requested_start_address (pdu_data q),
         conflict_mac_count := requested_count (pdu_data q)\<rparr>) m \<or>
      m' = map_info (ethpkt_rx_update (\<lambda>_. q)) m \<or>
      m' = map_info (state_update (\<lambda>_. INITIAL)) (destroy_thread (map_info (ethpkt_rx_update (\<lambda>_. q)) m))"
    using defend_hears_cases [of rx m] by auto
  have "threads_ok (map_info (ethpkt_rx_update (\<lambda>_. q)) m)" using assms(2) by (simp add: threads_ok_def map_info_def)
  then have "threads_ok (map_info (state_update (\<lambda>_. INITIAL)) (destroy_thread (map_info (ethpkt_rx_update (\<lambda>_. q)) m)))"
    using defend(3) by (intro destroy_thread_threads_ok) (simp_all add: map_info_def)
  then show ?thesis using q assms(2) by (elim disjE) (simp_all add: threads_ok_def map_info_def)
next
  case acquire
  then show ?thesis using assms(2,3) by (cases "threads m" rule: rev_cases) (auto simp: threads_ok_def butlast_append)
next
  case (wake i)
  then show ?thesis using assms(2) by (intro threads_ok_update [of m i False m' Wanting]) auto
next
  case (cancelled_asleep i)
  then show ?thesis using assms(2) by (intro threads_ok_update [of m i True m' Dead]) auto
next
  case (lock i c)
  then show ?thesis using assms(2) by (intro threads_ok_update [of m i c m' Holding]) (auto simp: map_info_def)
next
  case (announce i)
  then show ?thesis using assms(2) by (intro threads_ok_update [of m i False m' Sleeping]) (auto simp: send_packet_def)
next
  case (cancelled_sending i)
  then show ?thesis using assms(2) by (intro threads_ok_update [of m i True m' Dead]) auto
qed (use assms(2) in \<open>auto simp: threads_ok_def map_info_def send_packet_def defend_reply_def generate_address_def Let_def\<close>)

lemma map_info_sel [simp]:
  "info (map_info f m) = f (info m)" "threads (map_info f m) = threads m" "sent (map_info f m) = sent m"
  "maap_shm_mem (map_info f m) = maap_shm_mem m" "locked (map_info f m) = locked m"
  by (simp_all add: map_info_def)

lemma send_packet_sel [simp]:
  "threads (send_packet m) = threads m" "sent (send_packet m) = sent m @ [ethpkt (info m)]"
  "maap_shm_mem (send_packet m) = maap_shm_mem m" "locked (send_packet m) = locked m"
  by (simp_all add: send_packet_def)

lemma destroy_thread_sel [simp]:
  "info (destroy_thread m) = info m" "sent (destroy_thread m) = sent m" "maap_shm_mem (destroy_thread m) = maap_shm_mem m"
  "locked (destroy_thread m) = locked m" "threads (destroy_thread m) = [] \<longleftrightarrow> threads m = []"
  by (simp_all add: destroy_thread_def)

lemma generate_address_sel [simp]:
  "ethpkt (generate_address r mi) = ethpkt mi" "src_mac (generate_address r mi) = src_mac mi"
  "acquired_mac_add (generate_address r mi) = acquired_mac_add mi"
  by (simp_all add: generate_address_def Let_def)

lemma info_acquire_ethpkt:
  "ethpkt (info (acquire m)) = ethpkt (prepare_ethpkt MAAP_ANNOUNCE
     ((info m)\<lparr>acquired_mac_count := requested_mac_count (info m), acquired_mac_add := requested_mac_add (info m)\<rparr>))"
  by (simp add: acquire_def Let_def create_thread_def)

lemma threads_update_nonempty: "i < length (threads m) \<Longrightarrow> threads m \<noteq> []"
  by auto

lemma maap_step_addresses_ok:
  assumes "maap_step (pc, m) (pc', m')" "addresses_ok src pc m" "state (info m) = DEFEND \<Longrightarrow> threads m \<noteq> []"
  shows "addresses_ok src pc' m'"
  using assms(1)
proof (cases rule: maap_step.cases)
  case (initial r)
  then show ?thesis using assms(2) generate_address_range [of r "info m"] by (auto simp: addresses_ok_def)
next
  case (listen rx h mi n)
  then obtain p where "mi = (if h = Conflict then (info m)\<lparr>ethpkt_rx := p, state := INITIAL\<rparr> else (info m)\<lparr>ethpkt_rx := p\<rparr>)"
    using probe_hears_cases by blast
  then show ?thesis using listen assms(2) by (cases h) (auto simp: addresses_ok_def)
next
  case (defend rx reply)
  then show ?thesis using defend_hears_cases [of rx m] assms(2) by (auto simp: addresses_ok_def)
next
  case (lock i c)
  then show ?thesis
    using assms(2) threads_update_nonempty [of i m]
    by (cases pc) (auto simp: addresses_ok_def prepare_ethpkt_source prepare_ethpkt_requested)
next
  case (announce i)
  then show ?thesis
    using assms(2) threads_update_nonempty [of i m] by (cases pc) (auto simp: addresses_ok_def)
qed (use assms(2,3) in \<open>auto simp: addresses_ok_def prepare_ethpkt_source prepare_ethpkt_requested sent_acquire
  info_acquire_ethpkt defend_reply_def split: main_pc.splits\<close>)

lemma maap_reachable_ok:
  assumes "maap_step\<^sup>*\<^sup>* (Loop, maap_boot src shm) s"
  shows "addresses_ok src (fst s) (snd s) \<and> threads_ok (snd s)"
  using assms
proof (induction rule: rtranclp_induct)
  case base
  then show ?case
    by (simp add: addresses_ok_def threads_ok_def maap_boot_def Init_def map_header_def map_pdu_def cleared_info_def)
next
  case (step s t)
  obtain pc m pc' m' where st: "s = (pc, m)" "t = (pc', m')" by (metis surj_pair)
  have "threads_ok m'"
    using step st by (intro maap_step_threads_ok [of pc m pc' m']) (auto simp: addresses_ok_def)
  moreover have "addresses_ok src pc' m'"
    using step st by (intro maap_step_addresses_ok [of pc m pc' m' src]) (auto simp: threads_ok_def)
  ultimately show ?case using st by simp
qed

text \<open>A quiet network: an address is acquired and a new thread is created.\<close>

lemma quiet_acquire:
  assumes "state (info m) = INITIAL"
  obtains m' where "maap_step\<^sup>*\<^sup>* (Loop, m) (Loop, m')" "state (info m') = DEFEND" "threads m' = threads m @ [(Sleeping, False)]"
    "locked m' = locked m" "length (acquired_mac_add (info m')) = 6"
proof -
  let ?m1 = "map_info (\<lambda>mi. (generate_address 0 mi)\<lparr>state := PROBE\<rparr>) m"
  have 1: "maap_step\<^sup>*\<^sup>* (Loop, m) (Loop, ?m1)" using assms by (intro r_into_rtranclp maap_step.initial)
  obtain m2 rxs h where l: "probe_loop [None, None, None] 3 (map_info (prepare_ethpkt MAAP_PROBE) ?m1) = (h, m2, rxs)"
    by (cases "probe_loop [None, None, None] 3 (map_info (prepare_ethpkt MAAP_PROBE) ?m1)") auto
  then have h: "h = Silence" and m2: "threads m2 = threads m" "locked m2 = locked m" "requested_mac_add (info m2) = requested_mac_add (info ?m1)"
    by (auto simp: eval_nat_numeral probe_hears_def)
  have "state_transit 0 [None, None, None] ?m1 = Some (0, acquire m2, rxs)"
    using l h by (simp add: state_transit_def MAAP_PROBE_RETRANSMITS_def)
  from rtranclp_trans [OF 1 state_transit_steps [OF this]] m2 show thesis
    using generate_address_range [of 0 "info m"] by (intro that [of "acquire m2"]) (auto simp: maap_address_def)
qed

text \<open>
  C30: Whatever the threads do and whatever arrives: an acquired address lies in the range of the
  protocol and is the one in the shared memory; every packet ever sent carries the station's
  address as source and names an address of that range; at most one thread is in the critical
  section, none when the mutex is free; and no thread but the last is left uncancelled, which
  is so exactly while the station defends an address.
\<close>

theorem maap_run_invariant:
  assumes "maap_step\<^sup>*\<^sup>* (Loop, maap_boot src shm) (pc, m)"
  shows "(state (info m) = DEFEND \<longrightarrow> maap_address (acquired_mac_add (info m)) \<and> maap_shm_mem m = acquired_mac_add (info m)) \<and>
    (\<forall>p \<in> set (sent m). h_source (header p) = src \<and> maap_address (requested_start_address (pdu_data p))) \<and>
    length (filter (\<lambda>t. fst t = Holding) (threads m)) \<le> of_bool (locked m) \<and>
    length (filter (\<lambda>t. \<not> snd t) (threads m)) = of_bool (state (info m) = DEFEND)"
proof -
  have ok: "addresses_ok src pc m" "threads_ok m" using maap_reachable_ok [OF assms] by simp_all
  have "filter (\<lambda>t. \<not> snd t) ts = []" if "\<forall>t \<in> set ts. snd t" for ts :: "(thread_pc \<times> bool) list"
    using that by simp
  then have "length (filter (\<lambda>t. \<not> snd t) (threads m)) = of_bool (state (info m) = DEFEND)"
    using ok(2) by (cases "threads m" rule: rev_cases) (auto simp: threads_ok_def)
  then show ?thesis using ok by (auto simp: addresses_ok_def threads_ok_def)
qed

theorem maap_run_invariant_witness:
  "\<exists>m. maap_step\<^sup>*\<^sup>* (Loop, maap_boot example_src (replicate 6 0)) (Loop, m) \<and>
     maap_address (acquired_mac_add (info m)) \<and> length (filter (\<lambda>t. \<not> snd t) (threads m)) = 1"
proof -
  have "state (info (maap_boot example_src (replicate 6 0))) = INITIAL"
    by (simp add: maap_boot_def Init_def map_header_def map_pdu_def)
  from quiet_acquire [OF this] obtain m where
    "maap_step\<^sup>*\<^sup>* (Loop, maap_boot example_src (replicate 6 0)) (Loop, m)" "state (info m) = DEFEND" by blast
  then show ?thesis using maap_run_invariant by (intro exI [of _ m]) auto
qed

section \<open>Cancelling a thread inside its critical section\<close>

text \<open>A packet of the given type for the given address.\<close>

definition packet_for :: "4 word \<Rightarrow> bytes \<Rightarrow> ethpkt" where
  "packet_for t a =
     zero_pkt\<lparr>header := \<lparr>h_dest = get_multicast_mac_adr, h_source = example_src, eth_type = 0xF022\<rparr>,
              pdu_data := (pdu_data zero_pkt)\<lparr>message_type := t, requested_start_address := a, conflict_start_address := replicate 6 0\<rparr>\<rparr>"

lemma packet_for_received:
  assumes "length a = 6"
  shows "\<exists>b bs. recv_packet (b # bs) = packet_for t a"
proof -
  have ok: "pkt_ok (packet_for t a)"
    using assms by (simp add: packet_for_def pkt_ok_def get_multicast_mac_adr_def example_src_def)
  have "bytes_of_ethpkt (packet_for t a) \<noteq> []"
    by (simp add: bytes_of_ethpkt_def Let_def packet_for_def get_multicast_mac_adr_def)
  then obtain b bs where "bytes_of_ethpkt (packet_for t a) = b # bs" by (cases "bytes_of_ethpkt (packet_for t a)") auto
  then show ?thesis using recv_packet_bytes [OF ok, of "[]"] by auto
qed

lemma defend_step:
  assumes "state (info m) = DEFEND" "length (acquired_mac_add (info m)) = 6" "t = MAAP_PROBE \<or> t = MAAP_ANNOUNCE"
  obtains m' where "maap_step (Loop, m) (if t = MAAP_PROBE then Locking else Loop, m')" "locked m' = locked m"
    "threads m' = (if t = MAAP_PROBE then threads m else threads (destroy_thread m))"
    "state (info m') = (if t = MAAP_PROBE then DEFEND else INITIAL)"
proof -
  obtain b bs where rx: "recv_packet (b # bs) = packet_for t (acquired_mac_add (info m))"
    using packet_for_received [OF assms(2)] by blast
  obtain reply m' where d: "defend_hears (Some (b # bs)) m = (reply, m')" by (cases "defend_hears (Some (b # bs)) m")
  have c: "compare_mac (acquired_mac_add (info m)) (acquired_mac_add (info m))" using assms(2) by (simp add: compare_mac_iff)
  then have "reply = (t = MAAP_PROBE)" "locked m' = locked m"
      "threads m' = (if t = MAAP_PROBE then threads m else threads (destroy_thread m))"
      "state (info m') = (if t = MAAP_PROBE then DEFEND else INITIAL)"
    using d assms by (auto simp: defend_hears_def rx Let_def packet_for_def destroy_thread_def maap_msg_defs split: if_splits)
  with maap_step.defend [OF assms(1) d] show thesis using that by auto
qed

lemma lock_lost:
  assumes "maap_step\<^sup>*\<^sup>* s s'" "fst s = Locking" "locked (snd s)" "Holding \<notin> fst ` set (threads (snd s))"
  shows "fst s' = Locking \<and> locked (snd s') \<and> Holding \<notin> fst ` set (threads (snd s'))"
  using assms(1)
proof (induction rule: rtranclp_induct)
  case (step t u)
  have upd: "Holding \<notin> fst ` set (ts[i := (q, c)])" if "Holding \<notin> fst ` set ts" "q \<noteq> Holding" for ts i q c
    using that set_update_subset_insert [of ts i "(q, c)"] by fastforce
  have no: False if "i < length ts" "ts ! i = (Holding, c)" "Holding \<notin> fst ` set ts" for ts i c
    using that nth_mem by (metis fst_conv image_eqI)
  show ?case using step(2,3) by (cases rule: maap_step.cases) (simp_all add: upd, (blast dest: no)+)
qed (use assms in simp)

text \<open>
  C36: The announcing thread is cancelled wherever it is. When a conflicting announcement arrives
  while the thread is in its critical section, the thread ends at its \<^verbatim>\<open>sendto\<close> with the mutex
  taken; the next time the station has to defend an address it waits for the mutex for ever.
\<close>

theorem maap_cancellation_deadlock:
  "\<exists>m. maap_step\<^sup>*\<^sup>* (Loop, maap_boot src shm) (Locking, m) \<and> {s. maap_step\<^sup>*\<^sup>* (Locking, m) s} \<subseteq> {s. fst s = Locking}"
proof -
  let ?m0 = "maap_boot src shm"
  have "state (info ?m0) = INITIAL" by (simp add: maap_boot_def Init_def map_header_def map_pdu_def)
  then obtain m1 where m1: "maap_step\<^sup>*\<^sup>* (Loop, ?m0) (Loop, m1)" "state (info m1) = DEFEND" "threads m1 = [(Sleeping, False)]"
      "\<not> locked m1" "length (acquired_mac_add (info m1)) = 6"
    by (rule quiet_acquire) (simp add: maap_boot_def)
  let ?m2 = "m1\<lparr>threads := [(Wanting, False)]\<rparr>"
  let ?m3 = "map_info (prepare_ethpkt MAAP_ANNOUNCE) (m1\<lparr>threads := [(Holding, False)], locked := True\<rparr>)"
  have 2: "maap_step (Loop, m1) (Loop, ?m2)" using maap_step.wake [of 0 m1 Loop] m1 by simp
  have 3: "maap_step (Loop, ?m2) (Loop, ?m3)" using maap_step.lock [of 0 ?m2 False Loop] m1 by simp
  obtain m4 where m4: "maap_step (Loop, ?m3) (Loop, m4)" "locked m4" "threads m4 = [(Holding, True)]" "state (info m4) = INITIAL"
    using defend_step [of ?m3 MAAP_ANNOUNCE] m1 by (auto simp: maap_msg_defs destroy_thread_def)
  let ?m5 = "m4\<lparr>threads := [(Dead, True)]\<rparr>"
  have 5: "maap_step (Loop, m4) (Loop, ?m5)" using maap_step.cancelled_sending [of 0 m4 Loop] m4 by simp
  obtain m6 where m6: "maap_step\<^sup>*\<^sup>* (Loop, ?m5) (Loop, m6)" "state (info m6) = DEFEND" "locked m6"
      "threads m6 = [(Dead, True), (Sleeping, False)]" "length (acquired_mac_add (info m6)) = 6"
    using quiet_acquire [of ?m5] m4 by auto
  obtain m7 where m7: "maap_step (Loop, m6) (Locking, m7)" "locked m7" "threads m7 = [(Dead, True), (Sleeping, False)]"
    using defend_step [of m6 MAAP_PROBE] m6 by auto
  have "maap_step\<^sup>*\<^sup>* (Loop, ?m0) (Loop, ?m5)"
    by (rule rtranclp.rtrancl_into_rtrancl [OF rtranclp.rtrancl_into_rtrancl
        [OF rtranclp.rtrancl_into_rtrancl [OF rtranclp.rtrancl_into_rtrancl [OF m1(1) 2] 3] m4(1)] 5])
  then have "maap_step\<^sup>*\<^sup>* (Loop, ?m0) (Locking, m7)"
    by (rule rtranclp.rtrancl_into_rtrancl [OF rtranclp_trans [OF _ m6(1)] m7(1)])
  moreover have "{s. maap_step\<^sup>*\<^sup>* (Locking, m7) s} \<subseteq> {s. fst s = Locking}"
    using lock_lost [of "(Locking, m7)"] m7 by auto
  ultimately show ?thesis by blast
qed

end
