(* ===== verification/Que.thy ===== *)
theory Que
  imports Prelude
begin

text \<open>
  The message queue between the threads of the Windows daemon (\<^verbatim>\<open>daemons/mrpd/que.c\<close>): a ring of
  fixed size entries in a byte buffer, guarded by two counting semaphores. A wait on a
  semaphore that is zero blocks. The locale \<open>fifo\<close> is what the threads rely on; the ring
  implements it.
\<close>

section \<open>The ring\<close>

record que_def =
  space_avail :: nat
  data_avail :: nat
  que_buffer :: bytes
  in_pos :: nat
  out_pos :: nat
  entry_count :: nat
  entry_size :: nat

datatype 'a que_result = Blocked | Overrun | Done 'a

text \<open>Whether the two allocations succeed are parameters.\<close>

definition que_new :: "bool \<Rightarrow> bool \<Rightarrow> nat \<Rightarrow> nat \<Rightarrow> que_def option" where
  "que_new calloc1 calloc2 count esize =
     (if \<not> calloc1 then None
      else if \<not> calloc2 then None
      else Some \<lparr>space_avail = count, data_avail = 0, que_buffer = replicate (count * esize) 0, in_pos = 0, out_pos = 0,
                 entry_count = count, entry_size = esize\<rparr>)"

definition que_push :: "que_def \<Rightarrow> bytes \<Rightarrow> que_def que_result" where
  "que_push q d =
     (if space_avail q = 0 then Blocked
      else case wr_bytes (que_buffer q) (in_pos q * entry_size q) (take (entry_size q) d) of
             None \<Rightarrow> Overrun
           | Some b \<Rightarrow> Done (q\<lparr>space_avail := space_avail q - 1, que_buffer := b,
                               in_pos := (in_pos q + 1) mod entry_count q, data_avail := data_avail q + 1\<rparr>))"

definition que_pop_nowait :: "que_def \<Rightarrow> (bytes \<times> que_def) que_result" where
  "que_pop_nowait q =
     (case rd_bytes (que_buffer q) (out_pos q * entry_size q) (entry_size q) of
        None \<Rightarrow> Overrun
      | Some d \<Rightarrow> Done (d, q\<lparr>out_pos := (out_pos q + 1) mod entry_count q, space_avail := space_avail q + 1\<rparr>))"

definition que_pop_wait :: "que_def \<Rightarrow> (bytes \<times> que_def) que_result" where
  "que_pop_wait q =
     (if data_avail q = 0 then Blocked else que_pop_nowait (q\<lparr>data_avail := data_avail q - 1\<rparr>))"

section \<open>First in, first out\<close>

datatype que_op = Push bytes | Pop

text \<open>
  A run of pushes and pops: the entries pushed, the entries popped and the queue. It stops where
  an operation blocks.
\<close>

fun fifo_run :: "('q \<Rightarrow> bytes \<Rightarrow> 'q que_result) \<Rightarrow> ('q \<Rightarrow> (bytes \<times> 'q) que_result) \<Rightarrow> que_op list \<Rightarrow> 'q \<Rightarrow>
    (bytes list \<times> bytes list \<times> 'q) que_result" where
  "fifo_run push pop [] q = Done ([], [], q)"
| "fifo_run push pop (Push d # os) q =
     (case push q d of Blocked \<Rightarrow> Blocked | Overrun \<Rightarrow> Overrun
      | Done q' \<Rightarrow>
          (case fifo_run push pop os q' of
             Blocked \<Rightarrow> Blocked | Overrun \<Rightarrow> Overrun | Done (i, out, q'') \<Rightarrow> Done (d # i, out, q'')))"
| "fifo_run push pop (Pop # os) q =
     (case pop q of Blocked \<Rightarrow> Blocked | Overrun \<Rightarrow> Overrun
      | Done (d, q') \<Rightarrow>
          (case fifo_run push pop os q' of
             Blocked \<Rightarrow> Blocked | Overrun \<Rightarrow> Overrun | Done (i, out, q'') \<Rightarrow> Done (i, d # out, q'')))"

text \<open>What a queue with room for \<open>cap\<close> entries of \<open>size_of\<close> bytes promises.\<close>

locale fifo =
  fixes ok :: "'q \<Rightarrow> bool" and contents :: "'q \<Rightarrow> bytes list" and cap :: "'q \<Rightarrow> nat" and size_of :: "'q \<Rightarrow> nat"
    and push :: "'q \<Rightarrow> bytes \<Rightarrow> 'q que_result" and pop :: "'q \<Rightarrow> (bytes \<times> 'q) que_result"
  assumes push_law: "ok q \<Longrightarrow> length d = size_of q \<Longrightarrow>
      if length (contents q) < cap q
      then \<exists>q'. push q d = Done q' \<and> ok q' \<and> contents q' = contents q @ [d] \<and> cap q' = cap q \<and> size_of q' = size_of q
      else push q d = Blocked"
    and pop_law: "ok q \<Longrightarrow>
      case contents q of
        [] \<Rightarrow> pop q = Blocked
      | d # ds \<Rightarrow> \<exists>q'. pop q = Done (d, q') \<and> ok q' \<and> contents q' = ds \<and> cap q' = cap q \<and> size_of q' = size_of q"
begin

lemma run_fifo:
  assumes "ok q" "\<forall>d. Push d \<in> set os \<longrightarrow> length d = size_of q"
  shows "fifo_run push pop os q \<noteq> Overrun \<and> (\<forall>i out q'. fifo_run push pop os q = Done (i, out, q') \<longrightarrow> ok q' \<and> out @ contents q' = contents q @ i)"
  using assms
proof (induction os arbitrary: q)
  case (Cons oper os)
  show ?case
  proof (cases oper)
    case (Push d)
    then have "length d = size_of q" using Cons.prems(2) by simp
    note p = push_law [OF Cons.prems(1) this]
    show ?thesis
    proof (cases "length (contents q) < cap q")
      case True
      with p obtain q' where q': "push q d = Done q'" "ok q'" "contents q' = contents q @ [d]" "size_of q' = size_of q" by auto
      have "fifo_run push pop os q' \<noteq> Overrun \<and> (\<forall>i out q''. fifo_run push pop os q' = Done (i, out, q'') \<longrightarrow> ok q'' \<and> out @ contents q'' = contents q' @ i)"
        using Cons.prems(2) q' by (intro Cons.IH) auto
      then show ?thesis using Push q' by (auto split: que_result.splits)
    qed (use p Push in simp)
  next
    case Pop
    note p = pop_law [OF Cons.prems(1)]
    show ?thesis
    proof (cases "contents q")
      case c: (Cons d ds)
      with p c obtain q' where q': "pop q = Done (d, q')" "ok q'" "contents q' = ds" "size_of q' = size_of q" by auto
      have "fifo_run push pop os q' \<noteq> Overrun \<and> (\<forall>i out q''. fifo_run push pop os q' = Done (i, out, q'') \<longrightarrow> ok q'' \<and> out @ contents q'' = contents q' @ i)"
        using Cons.prems(2) q' by (intro Cons.IH) auto
      then show ?thesis using Pop q' c by (auto split: que_result.splits)
    qed (use p Pop in simp)
  qed
qed simp

end

section \<open>The ring is a queue\<close>

definition slot :: "que_def \<Rightarrow> nat \<Rightarrow> bytes" where
  "slot q i = take (entry_size q) (drop (i mod entry_count q * entry_size q) (que_buffer q))"

definition que_contents :: "que_def \<Rightarrow> bytes list" where
  "que_contents q = map (\<lambda>k. slot q (out_pos q + k)) [0..<data_avail q]"

definition que_ok :: "que_def \<Rightarrow> bool" where
  "que_ok q \<longleftrightarrow> 0 < entry_count q \<and> length (que_buffer q) = entry_count q * entry_size q \<and>
     out_pos q < entry_count q \<and> data_avail q + space_avail q = entry_count q \<and>
     in_pos q = (out_pos q + data_avail q) mod entry_count q"

lemma slot_fits: "i < n \<Longrightarrow> i * s + s \<le> n * (s :: nat)"
  by (metis Suc_leI add.commute mult_Suc mult_le_mono1)

lemma slots_disjoint: "i \<noteq> j \<Longrightarrow> i * s + s \<le> j * s \<or> j * s + s \<le> i * (s :: nat)"
  using slot_fits [of i j s] slot_fits [of j i s] by (cases "i < j") simp_all

lemma take_drop_write:
  assumes "length d = s" "x + s \<le> length b" "y = x \<or> y + s \<le> x \<or> x + s \<le> y"
  shows "take s (drop y (take x b @ d @ drop (x + s) b)) = (if y = x \<and> 0 < s then d else take s (drop y b))"
proof -
  have "take s (drop y (take x b @ d @ drop (x + s) b)) = take s (drop y b)" if "y + s \<le> x"
  proof -
    have "take s (drop y (take x b @ d @ drop (x + s) b)) = take s (drop y (take x b))" using that assms by simp
    also have "\<dots> = take s (drop y b)" using that by (simp add: drop_take min_def)
    finally show ?thesis .
  qed
  moreover have "drop y (take x b @ d @ drop (x + s) b) = drop y b" if "x + s \<le> y" using that assms by (simp add: min_def)
  moreover have "take s (drop x (take x b @ d @ drop (x + s) b)) = d" using assms by (simp add: min_def)
  ultimately show ?thesis using assms(1,3) by (cases "s = 0") auto
qed

lemma mod_ring_distinct: "k < d \<Longrightarrow> d < n \<Longrightarrow> (a + k) mod n \<noteq> (a + d) mod (n :: nat)"
proof
  assume "k < d" "d < n" "(a + k) mod n = (a + d) mod n"
  then have "n dvd (a + d) - (a + k)" using mod_eq_dvd_iff_nat [of "a + k" "a + d" n] by simp
  then have "n \<le> d - k" using \<open>k < d\<close> by (intro dvd_imp_le) simp_all
  then show False using \<open>d < n\<close> by simp
qed

lemma que_push_law:
  assumes "que_ok q" "length d = entry_size q"
  shows "if length (que_contents q) < entry_count q
    then \<exists>q'. que_push q d = Done q' \<and> que_ok q' \<and> que_contents q' = que_contents q @ [d] \<and>
      entry_count q' = entry_count q \<and> entry_size q' = entry_size q
    else que_push q d = Blocked"
proof (cases "data_avail q < entry_count q")
  case False
  then show ?thesis using assms by (simp add: que_contents_def que_push_def que_ok_def)
next
  case True
  let ?n = "entry_count q" and ?s = "entry_size q" and ?x = "in_pos q * entry_size q"
  let ?b = "take ?x (que_buffer q) @ d @ drop (?x + ?s) (que_buffer q)"
  let ?q = "q\<lparr>space_avail := space_avail q - 1, que_buffer := ?b, in_pos := (in_pos q + 1) mod ?n, data_avail := data_avail q + 1\<rparr>"
  have pos: "in_pos q < ?n" "?x + ?s \<le> length (que_buffer q)"
    using assms(1) slot_fits [of "in_pos q" ?n ?s] by (auto simp: que_ok_def)
  have push: "que_push q d = Done ?q"
    using assms pos True wr_bytes_Some [of ?x d "que_buffer q"] by (simp add: que_push_def que_ok_def)
  have ok: "que_ok ?q" using assms True pos by (auto simp: que_ok_def mod_Suc_eq)
  have new: "slot ?q (out_pos q + data_avail q) = d"
  proof -
    have "take ?s (drop ?x ?b) = d" using take_drop_write [OF assms(2) pos(2), of ?x] assms(2) by (cases "?s = 0") auto
    moreover have "(out_pos q + data_avail q) mod ?n = in_pos q" using assms(1) by (simp add: que_ok_def)
    ultimately show ?thesis by (simp add: slot_def)
  qed
  have "slot ?q (out_pos q + k) = slot q (out_pos q + k)" if "k < data_avail q" for k
  proof -
    have "(out_pos q + k) mod ?n \<noteq> in_pos q"
      using mod_ring_distinct [OF that True, of "out_pos q"] assms(1) by (simp add: que_ok_def)
    then show ?thesis
      using slots_disjoint [of "(out_pos q + k) mod ?n" "in_pos q" ?s]
        take_drop_write [OF assms(2) pos(2), of "(out_pos q + k) mod ?n * ?s"] by (auto simp: slot_def)
  qed
  then have "que_contents ?q = que_contents q @ [d]" using new by (simp add: que_contents_def)
  then show ?thesis using push ok True by (simp add: que_contents_def)
qed

lemma que_pop_law:
  assumes "que_ok q"
  shows "case que_contents q of
      [] \<Rightarrow> que_pop_wait q = Blocked
    | d # ds \<Rightarrow> \<exists>q'. que_pop_wait q = Done (d, q') \<and> que_ok q' \<and> que_contents q' = ds \<and>
        entry_count q' = entry_count q \<and> entry_size q' = entry_size q"
proof (cases "data_avail q")
  case 0
  then show ?thesis by (simp add: que_contents_def que_pop_wait_def)
next
  case (Suc k)
  let ?n = "entry_count q"
  let ?q = "q\<lparr>data_avail := k, out_pos := (out_pos q + 1) mod ?n, space_avail := space_avail q + 1\<rparr>"
  have "out_pos q * entry_size q + entry_size q \<le> length (que_buffer q)"
    using assms slot_fits [of "out_pos q" ?n "entry_size q"] by (simp add: que_ok_def)
  then have "que_pop_wait q = Done (slot q (out_pos q), ?q)"
    using assms Suc by (simp add: que_pop_wait_def que_pop_nowait_def rd_bytes_Some slot_def que_ok_def)
  moreover have "slot ?q ((out_pos q + 1) mod ?n + j) = slot q (out_pos q + Suc j)" for j
    by (simp add: slot_def mod_add_left_eq)
  then have "que_contents q = slot q (out_pos q) # que_contents ?q"
    using Suc by (simp add: que_contents_def map_upt_Suc del: upt_Suc)
  moreover have "que_ok ?q" using assms Suc by (auto simp: que_ok_def mod_add_left_eq)
  ultimately show ?thesis by auto
qed

interpretation ring: fifo que_ok que_contents entry_count entry_size que_push que_pop_wait
  by unfold_locales (rule que_push_law, assumption+, rule que_pop_law)

lemma que_new_ok:
  assumes "0 < count" "que_new True True count esize = Some q"
  shows "que_ok q \<and> que_contents q = [] \<and> entry_size q = esize"
  using assms by (auto simp: que_new_def que_ok_def que_contents_def)

text \<open>
  C37: The queue is first in, first out and never accesses memory outside its buffer: in every
  run of pushes and pops that does not block, the entries popped, followed by those still
  stored, are the entries pushed, in order.
\<close>

theorem que_first_in_first_out:
  assumes "0 < count" "que_new True True count esize = Some q" "\<forall>d. Push d \<in> set os \<longrightarrow> length d = esize"
  shows "fifo_run que_push que_pop_wait os q \<noteq> Overrun \<and>
    (\<forall>i out q'. fifo_run que_push que_pop_wait os q = Done (i, out, q') \<longrightarrow> out @ que_contents q' = i)"
  using ring.run_fifo [of q os] que_new_ok [OF assms(1,2)] assms(3) by auto

theorem que_first_in_first_out_witness:
  "\<exists>q. que_new True True 2 1 = Some q \<and>
     (\<forall>i out q'. fifo_run que_push que_pop_wait [Push [1], Push [2], Pop, Push [3]] q = Done (i, out, q') \<longrightarrow> out @ que_contents q' = i)"
  using que_first_in_first_out [of 2 1 _ "[Push [1], Push [2], Pop, Push [3]]"] by (auto simp: que_new_def)

end
