(* ===== verification/Spec2Isabelle.thy ===== *)
theory Spec2Isabelle
  imports Prelude Mrp_Os Mrp Mrp_App Mrpdu Parse Mrp_Store Mrp_Handler Mvrp Mvrp_Correct Mvrp_Recv Mvrp_Runs Mvrp_Safe Mvrp_Wire Mvrp_Register Mmrp Mmrp_Correct Mmrp_Recv Mmrp_Runs Mmrp_Safe Eui64set Msrp Maap Que
begin

text \<open>
  Verification of the Open-AVB daemons.
\<close>

end
